theory Spec2Isabelle
  imports Complex_Main "HOL-Library.Sublist"
begin

section \<open>Exceptions\<close>

text \<open>
  Every Python exception the modelled code can meet is a value of \<open>exn\<close>.
  \<open>GraphRecursionError\<close> is what the graph runtime raises when a run uses up its
  step limit; \<open>Raised s\<close> stands for any other exception whose \<open>str(e)\<close> is \<open>s\<close>
  (a failed model call, a failed tool, a failed embedding request).
\<close>

datatype exn =
    GraphRecursionError
  | IndexError
  | FileNotFoundError string
  | Raised string

fun str_exn :: "exn \<Rightarrow> string" where
  "str_exn GraphRecursionError = ''Recursion limit reached without hitting a stop condition''"
| "str_exn IndexError = ''list index out of range''"
| "str_exn (FileNotFoundError s) = s"
| "str_exn (Raised s) = s"

section \<open>Prompts (src/agent/prompts.py)\<close>

definition ERROR_RESPONSE_PROMPT :: string where
  "ERROR_RESPONSE_PROMPT = ''I apologize, but I'm having trouble accessing that information right now. Let me connect you with one of our staff members who can help you directly. Would you like me to transfer you, or is there something else I can help you with?''"

definition NO_RESULTS_PROMPT :: string where
  "NO_RESULTS_PROMPT = ''I don't have specific information about that in our system. Let me check with our staff to get you the correct answer. Can you hold for just a moment, or would you prefer I have someone call you back?''"

definition CLARIFICATION_PROMPT :: string where
  "CLARIFICATION_PROMPT = ''I want to make sure I help you correctly. Could you tell me a bit more about what you're looking for? Are you calling about an appointment, or do you have a general question about our clinic?''"

definition CLOSING_PROMPT :: string where
  "CLOSING_PROMPT = ''Is there anything else I can help you with today?''"

definition GOODBYE_PROMPT :: string where
  "GOODBYE_PROMPT = ''Thank you for calling WellStreet Urgent Care. Have a great day!''"

definition HOLD_PROMPT :: string where
  "HOLD_PROMPT = ''I'll need just a moment to look that up for you. Please hold briefly.''"

definition RETURN_FROM_HOLD_PROMPT :: string where
  "RETURN_FROM_HOLD_PROMPT = ''Thank you for holding. I have that information for you now.''"

definition TRANSFER_PROMPT :: string where
  "TRANSFER_PROMPT = ''I'll connect you with one of our team members who can help you with that. Please hold while I transfer you.''"

definition SCHEDULING_PROMPT :: string where
  "SCHEDULING_PROMPT = ''All appointments are scheduled through our website. I can send you the scheduling link if you'd like. Would that be helpful?''"

definition RESCHEDULE_PROMPT :: string where
  "RESCHEDULE_PROMPT = ''You can reschedule your appointment through our website. If you're having trouble with the website, I can help you reschedule over the phone. Which would you prefer?''"

definition CANCEL_PROMPT :: string where
  "CANCEL_PROMPT = ''You can cancel your appointment through our website. Would you like me to send you the link, or would you prefer I help you cancel it now?''"

definition WALKIN_PROMPT :: string where
  "WALKIN_PROMPT = ''Yes, we do accept walk-ins! You're welcome to come in anytime during our hours. Just keep in mind that wait times may vary depending on how busy we are.''"

definition LATE_ARRIVAL_PROMPT :: string where
  "LATE_ARRIVAL_PROMPT = ''I understand you're running late. Our policy is that if you're more than 15 minutes late, we may need to reschedule your appointment. Would you like me to help you find the next available slot?''"

definition DIRECTIONS_PROMPT :: string where
  "DIRECTIONS_PROMPT = ''I'd be happy to help you find us. Could you tell me where you're coming from, and I'll give you the best directions?''"

definition WAIT_TIMES_PROMPT :: string where
  "WAIT_TIMES_PROMPT = ''Wait times can vary depending on patient volume and the urgency of cases being treated. Would you like me to check on the current wait time for you?''"

definition ONLINE_BOOKING_PROMPT :: string where
  "ONLINE_BOOKING_PROMPT = ''You can book an appointment on our website. I can send you the direct link if you'd like. If you prefer, you're also welcome to walk in.''"

text \<open>
  The three long multi-line templates (\<open>SYSTEM_PROMPT\<close>, \<open>VOICE_RESPONSE_PROMPT\<close>,
  \<open>TOOL_SELECTION_PROMPT\<close>) are kept as fields of a record: no property below depends on
  their wording, so every result holds for any text.
\<close>

record templates =
  SYSTEM_PROMPT :: string
  VOICE_RESPONSE_PROMPT :: string
  TOOL_SELECTION_PROMPT :: string

definition PROMPTS :: "'a templates_scheme \<Rightarrow> (string \<times> string) list" where
  "PROMPTS t =
    [(''system'', SYSTEM_PROMPT t),
     (''voice_response'', VOICE_RESPONSE_PROMPT t),
     (''tool_selection'', TOOL_SELECTION_PROMPT t),
     (''error'', ERROR_RESPONSE_PROMPT),
     (''no_results'', NO_RESULTS_PROMPT),
     (''clarification'', CLARIFICATION_PROMPT),
     (''closing'', CLOSING_PROMPT),
     (''goodbye'', GOODBYE_PROMPT),
     (''hold'', HOLD_PROMPT),
     (''return_from_hold'', RETURN_FROM_HOLD_PROMPT),
     (''transfer'', TRANSFER_PROMPT),
     (''scheduling'', SCHEDULING_PROMPT),
     (''reschedule'', RESCHEDULE_PROMPT),
     (''cancel'', CANCEL_PROMPT),
     (''walkin'', WALKIN_PROMPT),
     (''late_arrival'', LATE_ARRIVAL_PROMPT),
     (''directions'', DIRECTIONS_PROMPT),
     (''wait_times'', WAIT_TIMES_PROMPT),
     (''online_booking'', ONLINE_BOOKING_PROMPT)]"

text \<open>\<open>PROMPTS.get(name, "")\<close>.\<close>

definition get_prompt :: "'a templates_scheme \<Rightarrow> string \<Rightarrow> string" where
  "get_prompt t name = (case map_of (PROMPTS t) name of Some p \<Rightarrow> p | None \<Rightarrow> [])"

section \<open>Messages and the agent state (src/agent/state.py)\<close>

text \<open>
  A tool call is the name of the requested tool and its argument string. The four message
  classes of the conversation are the constructors of \<open>message\<close>; only an assistant
  message carries tool calls. Every message has its content and an optional id (\<open>None\<close>
  until somebody gives it one).
\<close>

type_synonym tool_call = "string \<times> string"

datatype message =
    SystemMessage string "string option"
  | HumanMessage string "string option"
  | AIMessage string "tool_call list" "string option"
  | ToolMessage string "string option"

fun msg_content :: "message \<Rightarrow> string" where
  "msg_content (SystemMessage c i) = c"
| "msg_content (HumanMessage c i) = c"
| "msg_content (AIMessage c tcs i) = c"
| "msg_content (ToolMessage c i) = c"

fun msg_id :: "message \<Rightarrow> string option" where
  "msg_id (SystemMessage c i) = i"
| "msg_id (HumanMessage c i) = i"
| "msg_id (AIMessage c tcs i) = i"
| "msg_id (ToolMessage c i) = i"

text \<open>\<open>m.id = x\<close>.\<close>

fun with_id :: "string \<Rightarrow> message \<Rightarrow> message" where
  "with_id x (SystemMessage c i) = SystemMessage c (Some x)"
| "with_id x (HumanMessage c i) = HumanMessage c (Some x)"
| "with_id x (AIMessage c tcs i) = AIMessage c tcs (Some x)"
| "with_id x (ToolMessage c i) = ToolMessage c (Some x)"


text \<open>
  \<open>hasattr(m, 'tool_calls') and m.tool_calls\<close>: the requested calls of an assistant
  message, nothing for every other class.
\<close>

fun msg_tool_calls :: "message \<Rightarrow> tool_call list" where
  "msg_tool_calls (AIMessage c tcs i) = tcs"
| "msg_tool_calls m = []"

fun is_system :: "message \<Rightarrow> bool" where
  "is_system (SystemMessage c i) = True"
| "is_system m = False"


record AgentState =
  messages :: "message list"
  retrieved_context :: "string option"
  current_query :: "string option"
  tool_calls :: "string list"
  response :: "string option"
  error :: "string option"
  call_stage :: string

subsection \<open>The reducer of the message list\<close>

text \<open>
  \<open>AgentState\<close> declares \<open>messages\<close> with the reducer \<open>add_messages\<close>: whatever is written
  to the message list (the input of a run, the list a node returns) is merged into the
  stored list by message id. The reducer first gives every message of the written list
  that has no id a new one (\<open>gen i\<close> is the id drawn for the message at position \<open>i\<close>).
  Then it goes through the written list: a message whose id is already in the stored list
  replaces the stored message of that id where it stands, any other message is appended.
  The stored list is empty at first and every merge leaves it without id-less messages
  and with pairwise distinct ids, so the reducer's pass over the stored list finds
  nothing to do and an id stands at one place only.
\<close>

fun assign_ids :: "(nat \<Rightarrow> string) \<Rightarrow> nat \<Rightarrow> message list \<Rightarrow> message list" where
  "assign_ids gen i [] = []"
| "assign_ids gen i (m # ms) =
     (if msg_id m = None then with_id (gen i) m else m) # assign_ids gen (Suc i) ms"

definition merge_message :: "message list \<Rightarrow> message \<Rightarrow> message list" where
  "merge_message merged m =
    (if msg_id m \<in> set (map msg_id merged)
     then map (\<lambda>x. if msg_id x = msg_id m then m else x) merged
     else merged @ [m])"

definition add_messages :: "(nat \<Rightarrow> string) \<Rightarrow> message list \<Rightarrow> message list \<Rightarrow> message list" where
  "add_messages gen left right = foldl merge_message left (assign_ids gen 0 right)"

section \<open>The world outside the orchestrator\<close>

text \<open>
  The hosted chat model, the tool executor and the graph runtime are not part of the
  repository. They are parameters of the model:
  \<^item> \<open>llm_invoke k msgs\<close> is what \<open>get_llm_with_tools().invoke(msgs)\<close> does at the
    \<open>k\<close>-th step of the run: it raises, or returns an assistant message given by its
    content, its tool calls and its id (if the model host gave it one). The step index
    lets the model answer the same messages differently at different times.
  \<^item> \<open>tool_executor_invoke k msgs\<close> is what \<open>ToolNode(sop_tools).invoke(state)\<close> does:
    it raises, or returns a result with no \<open>messages\<close> entry (\<open>None\<close>), or returns the
    contents of the tool messages it produced (they come without ids).
  \<^item> \<open>recursion_limit\<close> is the step limit of the graph runtime. A run ends normally only
    if it needs fewer node executions than the limit; a run that has made as many node
    executions as the limit raises \<open>GraphRecursionError\<close>, also when the last of them was
    the final node.
  \<^item> \<open>uuid4 j i\<close> is the id that the \<open>j\<close>-th merge of the run draws for the message at
    position \<open>i\<close> of the written list. Merge 0 takes in the input of the run, merge
    \<open>k + 1\<close> takes in what the node of step \<open>k\<close> returned.
\<close>

record world = templates +
  llm_invoke :: "nat \<Rightarrow> message list \<Rightarrow> exn + (string \<times> tool_call list \<times> string option)"
  tool_executor_invoke :: "nat \<Rightarrow> message list \<Rightarrow> exn + string list option"
  recursion_limit :: nat
  uuid4 :: "nat \<Rightarrow> nat \<Rightarrow> string"

section \<open>Graph nodes (src/agent/graph.py)\<close>

text \<open>The messages the agent node sends to the model.\<close>

definition with_system_prompt :: "world \<Rightarrow> message list \<Rightarrow> message list" where
  "with_system_prompt w msgs =
    (if msgs = [] \<or> \<not> is_system (hd msgs)
     then SystemMessage (SYSTEM_PROMPT w) None # msgs else msgs)"

definition agent_node :: "world \<Rightarrow> nat \<Rightarrow> AgentState \<Rightarrow> AgentState" where
  "agent_node w k state =
    (case llm_invoke w k (with_system_prompt w (messages state)) of
       Inr (c, tcs, i) \<Rightarrow>
         state\<lparr>messages := messages state @ [AIMessage c tcs i], response := Some c\<rparr>
     | Inl e \<Rightarrow>
         state\<lparr>error := Some (str_exn e), response := Some (get_prompt w ''error'')\<rparr>)"

definition tool_node :: "world \<Rightarrow> nat \<Rightarrow> AgentState \<Rightarrow> AgentState" where
  "tool_node w k state =
    (if messages state = [] then state\<lparr>error := Some (str_exn IndexError)\<rparr>
     else if msg_tool_calls (last (messages state)) = [] then state
     else case tool_executor_invoke w k (messages state) of
            Inl e \<Rightarrow> state\<lparr>error := Some (str_exn e)\<rparr>
          | Inr None \<Rightarrow> state
          | Inr (Some rs) \<Rightarrow>
              state\<lparr>messages := messages state @ map (\<lambda>r. ToolMessage r None) rs,
                    retrieved_context := (if rs = [] then None else Some (last rs))\<rparr>)"

definition response_node :: "world \<Rightarrow> AgentState \<Rightarrow> AgentState" where
  "response_node w state =
    (if messages state = []
     then state\<lparr>error := Some (str_exn IndexError), response := Some (get_prompt w ''error'')\<rparr>
     else let c = msg_content (last (messages state))
          in state\<lparr>response := Some (if c \<noteq> [] then c else get_prompt w ''error'')\<rparr>)"

datatype node = Agent | Tools | Response

text \<open>
  The routing function reads \<open>state["messages"][-1]\<close> outside any \<open>try\<close>, so an empty
  message list raises.
\<close>

definition should_use_tools :: "AgentState \<Rightarrow> exn + node" where
  "should_use_tools state =
    (if messages state = [] then Inl IndexError
     else if msg_tool_calls (last (messages state)) \<noteq> [] then Inr Tools
     else Inr Response)"

section \<open>The compiled graph\<close>

text \<open>
  Every node returns the whole state with its own changes. The runtime takes the returned
  state as the next state, except that the returned message list goes through the
  reducer: merge number \<open>j\<close> of the run merges it into the message list stored so far.
\<close>

definition update_state :: "world \<Rightarrow> nat \<Rightarrow> AgentState \<Rightarrow> AgentState \<Rightarrow> AgentState" where
  "update_state w j state returned =
     returned\<lparr>messages := add_messages (uuid4 w j) (messages state) (messages returned)\<rparr>"

text \<open>
  \<open>build_agent_graph\<close> wires: entry point \<open>agent\<close>; after \<open>agent\<close> the conditional edge
  \<open>should_use_tools\<close>; \<open>tools\<close> goes back to \<open>agent\<close>; \<open>response\<close> goes to the end.
  \<open>invoke_from w fuel k nd state\<close> runs the graph from node \<open>nd\<close> with \<open>fuel\<close> node
  executions left, \<open>k\<close> being the number of executions so far. It returns the nodes it
  executed and the outcome. The graph itself holds no counter: the only bound is the
  runtime's. With no execution left the run raises; it also raises when the final node
  has just used the last one.
\<close>

fun invoke_from :: "world \<Rightarrow> nat \<Rightarrow> nat \<Rightarrow> node \<Rightarrow> AgentState \<Rightarrow> node list \<times> (exn + AgentState)" where
  "invoke_from w 0 k nd state = ([], Inl GraphRecursionError)"
| "invoke_from w (Suc fuel) k Agent state =
    (let state' = update_state w (Suc k) state (agent_node w k state)
     in case should_use_tools state' of
          Inl e \<Rightarrow> ([Agent], Inl e)
        | Inr nd \<Rightarrow> (let (tr, r) = invoke_from w fuel (Suc k) nd state' in (Agent # tr, r)))"
| "invoke_from w (Suc fuel) k Tools state =
    (let (tr, r) = invoke_from w fuel (Suc k) Agent (update_state w (Suc k) state (tool_node w k state))
     in (Tools # tr, r))"
| "invoke_from w (Suc fuel) k Response state =
    ([Response],
     if fuel = 0 then Inl GraphRecursionError
     else Inr (update_state w (Suc k) state (response_node w state)))"

text \<open>
  \<open>agent.invoke(state)\<close>: the input is written to the empty message list (merge 0), then
  the graph runs from its entry point under the step limit.
\<close>

definition graph_input :: "world \<Rightarrow> AgentState \<Rightarrow> AgentState" where
  "graph_input w state = update_state w 0 (state\<lparr>messages := []\<rparr>) state"

definition agent_trace :: "world \<Rightarrow> AgentState \<Rightarrow> node list" where
  "agent_trace w state = fst (invoke_from w (recursion_limit w) 0 Agent (graph_input w state))"

definition agent_invoke :: "world \<Rightarrow> AgentState \<Rightarrow> exn + AgentState" where
  "agent_invoke w state = snd (invoke_from w (recursion_limit w) 0 Agent (graph_input w state))"

text \<open>The number of tool round-trips of a run: how often the \<open>tools\<close> node ran.\<close>

definition tool_round_trips :: "node list \<Rightarrow> nat" where
  "tool_round_trips tr = length (filter (\<lambda>nd. nd = Tools) tr)"

section \<open>Agent execution (src/agent/graph.py)\<close>

text \<open>\<open>x or []\<close> for an optional list.\<close>

definition or_empty :: "'a list option \<Rightarrow> 'a list" where
  "or_empty h = (case h of None \<Rightarrow> [] | Some xs \<Rightarrow> xs)"

definition turn_state :: "world \<Rightarrow> string \<Rightarrow> message list option \<Rightarrow> string option \<Rightarrow> AgentState" where
  "turn_state w query history system_prompt =
    (let prompt = (case system_prompt of
                     None \<Rightarrow> SYSTEM_PROMPT w
                   | Some p \<Rightarrow> if p = [] then SYSTEM_PROMPT w else p)
     in \<lparr>messages = [SystemMessage prompt None] @ or_empty history @ [HumanMessage query None],
         retrieved_context = None,
         current_query = Some query,
         tool_calls = [],
         response = None,
         error = None,
         call_stage = ''main''\<rparr>)"

text \<open>
  \<open>run_agent_with_history(query, history, system_prompt)\<close>. The result's \<open>response\<close>
  entry is returned as it is (it may be \<open>None\<close> as far as the types go), the history is
  the result's messages without the system messages; any exception of the graph run
  gives the error prompt and \<open>history or []\<close>, the history as the caller passed it.
\<close>

definition run_agent_with_history ::
  "world \<Rightarrow> string \<Rightarrow> message list option \<Rightarrow> string option \<Rightarrow> string option \<times> message list" where
  "run_agent_with_history w query history system_prompt =
    (case agent_invoke w (turn_state w query history system_prompt) of
       Inr result \<Rightarrow> (response result, filter (\<lambda>m. \<not> is_system m) (messages result))
     | Inl e \<Rightarrow> (Some (get_prompt w ''error''), or_empty history))"


subsection \<open>What a turn produces\<close>

text \<open>
  The messages a turn adds to the conversation, told from what the model and the tools
  returned along the nodes the run went through: an agent step adds the model's reply (if
  the call returned), a tools step adds one tool message for every result of the executor
  (if it returned any), the response step adds nothing. A message that comes without an
  id carries the id the merge of that step draws for its place in the list.
  \<open>produced w k tr msgs\<close> are the messages added from step \<open>k\<close> on along the nodes
  \<open>tr\<close>, when the conversation before step \<open>k\<close> is \<open>msgs\<close>.
\<close>

definition step_messages :: "world \<Rightarrow> nat \<Rightarrow> node \<Rightarrow> message list \<Rightarrow> message list" where
  "step_messages w k nd msgs =
    (case nd of
       Agent \<Rightarrow>
         (case llm_invoke w k (with_system_prompt w msgs) of
            Inr (c, tcs, i) \<Rightarrow>
              [AIMessage c tcs (Some (case i of Some x \<Rightarrow> x | None \<Rightarrow> uuid4 w (Suc k) (length msgs)))]
          | Inl e \<Rightarrow> [])
     | Tools \<Rightarrow>
         (case tool_executor_invoke w k msgs of
            Inr (Some rs) \<Rightarrow>
              map (\<lambda>(j, r). ToolMessage r (Some (uuid4 w (Suc k) j))) (enumerate (length msgs) rs)
          | Inr None \<Rightarrow> []
          | Inl e \<Rightarrow> [])
     | Response \<Rightarrow> [])"


subsection \<open>Ids that do not clash\<close>

text \<open>
  The ids of a message list, and what it means that no id of a turn clashes: the ids of the
  history are pairwise distinct; the runtime never draws the same id twice nor an id of
  the history; an id the model host gives a reply is not in the history, is not drawn by
  the runtime, and is given at one step only.
\<close>

definition ids_of :: "message list \<Rightarrow> string list" where
  "ids_of msgs = concat (map (\<lambda>m. case msg_id m of None \<Rightarrow> [] | Some x \<Rightarrow> [x]) msgs)"

definition fresh_ids :: "world \<Rightarrow> message list \<Rightarrow> bool" where
  "fresh_ids w history \<longleftrightarrow>
     distinct (ids_of history)
     \<and> (\<forall>j i j' i'. uuid4 w j i = uuid4 w j' i' \<longrightarrow> j = j' \<and> i = i')
     \<and> (\<forall>j i. uuid4 w j i \<notin> set (ids_of history))
     \<and> (\<forall>k msgs c tcs x. llm_invoke w k msgs = Inr (c, tcs, Some x) \<longrightarrow>
           x \<notin> set (ids_of history)
           \<and> (\<forall>j i. x \<noteq> uuid4 w j i)
           \<and> (\<forall>k' msgs' c' tcs'. llm_invoke w k' msgs' = Inr (c', tcs', Some x) \<longrightarrow> k' = k))"

text \<open>
  The ids that can stand in the conversation before step \<open>k\<close>, and the state of the stored
  message list there: it starts with the system message, every message has an id, the
  ids are pairwise distinct and come from that pool.
\<close>

definition id_pool :: "world \<Rightarrow> message list \<Rightarrow> nat \<Rightarrow> string set" where
  "id_pool w history k =
     set (ids_of history)
     \<union> {x. \<exists>j i. j \<le> k \<and> x = uuid4 w j i}
     \<union> {x. \<exists>j msgs c tcs. j < k \<and> llm_invoke w j msgs = Inr (c, tcs, Some x)}"

definition stored_ok :: "world \<Rightarrow> message list \<Rightarrow> nat \<Rightarrow> message list \<Rightarrow> bool" where
  "stored_ok w history k msgs \<longleftrightarrow>
     msgs \<noteq> [] \<and> is_system (hd msgs)
     \<and> distinct (map msg_id msgs)
     \<and> (\<forall>m \<in> set msgs. \<exists>x. msg_id m = Some x \<and> x \<in> id_pool w history k)"


section \<open>Python string helpers\<close>

text \<open>
  Strings are lists of characters, \<open>len\<close> is \<open>length\<close>. A character is a code point
  below 256, so the model covers text of that range. The helpers follow Python there:
  \<open>str.isspace\<close>, \<open>str.strip()\<close>, \<open>str.split()\<close>, \<open>str.lower()\<close>, \<open>sep.join(xs)\<close>,
  \<open>str(n)\<close> and the format \<open>{n:03d}\<close>.

  The whitespace of Python below 256: tab to carriage return (9 to 13), the separators
  28 to 31, the space (32), the next-line control (0x85) and the no-break space (0xA0).
\<close>

definition is_space :: "char \<Rightarrow> bool" where
  "is_space c =
    (let n = (of_char c :: nat)
     in (9 \<le> n \<and> n \<le> 13) \<or> (28 \<le> n \<and> n \<le> 32) \<or> n = 133 \<or> n = 160)"

definition strip :: "string \<Rightarrow> string" where
  "strip s = rev (dropWhile is_space (rev (dropWhile is_space s)))"

fun split_from :: "string \<Rightarrow> string \<Rightarrow> string list" where
  "split_from cur [] = (if cur = [] then [] else [cur])"
| "split_from cur (c # cs) =
     (if is_space c then (if cur = [] then split_from [] cs else cur # split_from [] cs)
      else split_from (cur @ [c]) cs)"

definition split_ws :: "string \<Rightarrow> string list" where
  "split_ws s = split_from [] s"

text \<open>
  The upper-case letters below 256 are \<open>A\<close> to \<open>Z\<close> and 0xC0 to 0xDE without the
  multiplication sign 0xD7; each has its lower-case letter 32 places further on.
\<close>

definition lower_char :: "char \<Rightarrow> char" where
  "lower_char c =
    (let n = (of_char c :: nat)
     in if (65 \<le> n \<and> n \<le> 90) \<or> (192 \<le> n \<and> n \<le> 222 \<and> n \<noteq> 215) then char_of (n + 32) else c)"

definition lower :: "string \<Rightarrow> string" where
  "lower s = map lower_char s"

fun join :: "string \<Rightarrow> string list \<Rightarrow> string" where
  "join sep [] = []"
| "join sep [x] = x"
| "join sep (x # y # ys) = x @ sep @ join sep (y # ys)"

definition digit_char :: "nat \<Rightarrow> char" where
  "digit_char d = char_of (48 + d)"

function str_nat :: "nat \<Rightarrow> string" where
  "str_nat n = (if n < 10 then [digit_char n] else str_nat (n div 10) @ [digit_char (n mod 10)])"
  by pat_completeness auto
termination
  by (relation "measure (\<lambda>n. n)") auto

declare str_nat.simps [simp del]

definition str_int :: "int \<Rightarrow> string" where
  "str_int i = (if i < 0 then CHR ''-'' # str_nat (nat (- i)) else str_nat (nat i))"

text \<open>\<open>f"{n:03d}"\<close> for a natural number: zero-padded to width three, longer numbers whole.\<close>

definition fmt_03d :: "nat \<Rightarrow> string" where
  "fmt_03d n = replicate (3 - length (str_nat n)) CHR ''0'' @ str_nat n"

section \<open>Documents\<close>

text \<open>
  A document is its text and a metadata dictionary whose values are strings or integers.
  The dictionary is an association list read with \<open>map_of\<close>.
\<close>

datatype meta_value = MStr string | MInt int

fun str_meta :: "meta_value \<Rightarrow> string" where
  "str_meta (MStr s) = s"
| "str_meta (MInt i) = str_int i"

record Document =
  page_content :: string
  metadata :: "(string \<times> meta_value) list"

text \<open>\<open>d.get(key, default)\<close>.\<close>

definition dict_get :: "(string \<times> 'v) list \<Rightarrow> string \<Rightarrow> 'v \<Rightarrow> 'v" where
  "dict_get d key dflt = (case map_of d key of Some v \<Rightarrow> v | None \<Rightarrow> dflt)"

text \<open>\<open>d[key] = v\<close>.\<close>

definition dict_set :: "(string \<times> 'v) list \<Rightarrow> string \<Rightarrow> 'v \<Rightarrow> (string \<times> 'v) list" where
  "dict_set d key v =
    (if key \<in> fst ` set d then map (\<lambda>(k, x). if k = key then (k, v) else (k, x)) d
     else d @ [(key, v)])"

section \<open>Index builder (scripts/create\_sop\_index.py)\<close>

subsection \<open>MetadataEnricher.enrich\<close>

text \<open>
  \<open>position_pct = (i / total_chunks) * 100\<close> is a float in the source. It is modelled by
  the exact rational; the two agree on the comparisons with 20 and 80 for every chunk count
  a build can have (a quotient that is not exactly one fifth or four fifths is further from
  it than the rounding error). The loop body does not run for an empty chunk list, so the
  division never sees a zero.
\<close>

definition position_pct :: "nat \<Rightarrow> nat \<Rightarrow> rat" where
  "position_pct i total_chunks = (of_nat i / of_nat total_chunks) * 100"

definition position_of :: "nat \<Rightarrow> nat \<Rightarrow> string" where
  "position_of i total_chunks =
    (if position_pct i total_chunks < 20 then ''beginning''
     else if position_pct i total_chunks > 80 then ''end''
     else ''middle'')"

text \<open>
  The body of the loop for the chunk at index \<open>i\<close>; \<open>now i\<close> is what
  \<open>datetime.now().isoformat()\<close> returns there.
\<close>

definition enrich_chunk :: "(nat \<Rightarrow> string) \<Rightarrow> nat \<Rightarrow> nat \<Rightarrow> Document \<Rightarrow> Document" where
  "enrich_chunk now total_chunks i chunk =
    (let content = page_content chunk
     in \<lparr>page_content = content,
         metadata =
           [(''chunk_id'', MStr (''chunk_'' @ fmt_03d (i + 1))),
            (''index'', MInt (int (i + 1))),
            (''total_chunks'', MInt (int total_chunks)),
            (''char_count'', MInt (int (length content))),
            (''word_count'', MInt (int (length (split_ws content)))),
            (''position'', MStr (position_of i total_chunks)),
            (''source'', dict_get (metadata chunk) ''source'' (MStr ''unknown'')),
            (''indexed_at'', MStr (now i))]\<rparr>)"

text \<open>\<open>for i, chunk in enumerate(chunks): ... enriched.append(enriched_doc)\<close>.\<close>

fun enrich_from :: "(nat \<Rightarrow> string) \<Rightarrow> nat \<Rightarrow> nat \<Rightarrow> Document list \<Rightarrow> Document list" where
  "enrich_from now total_chunks i [] = []"
| "enrich_from now total_chunks i (chunk # chunks) =
     enrich_chunk now total_chunks i chunk # enrich_from now total_chunks (Suc i) chunks"

definition enrich :: "(nat \<Rightarrow> string) \<Rightarrow> Document list \<Rightarrow> Document list" where
  "enrich now chunks = enrich_from now (length chunks) 0 chunks"

text \<open>
  The position bucket in the spec's words: the first 20 percent of the document is the
  beginning, the last 20 percent is the end, everything between is the middle. The
  fractional offset of a chunk in its own document is the number of chunks of the same
  source before it over the number of chunks of that source.
\<close>

definition position_spec :: "rat \<Rightarrow> string" where
  "position_spec offset =
    (if offset < 1 / 5 then ''beginning'' else if 4 / 5 \<le> offset then ''end'' else ''middle'')"

definition source_of :: "Document \<Rightarrow> meta_value" where
  "source_of d = dict_get (metadata d) ''source'' (MStr ''unknown'')"

definition document_offset :: "Document list \<Rightarrow> nat \<Rightarrow> rat" where
  "document_offset chunks i =
     of_nat (length (filter (\<lambda>c. source_of c = source_of (chunks ! i)) (take i chunks)))
     / of_nat (length (filter (\<lambda>c. source_of c = source_of (chunks ! i)) chunks))"

subsection \<open>EmbeddingsService.initialize\<close>

definition MAX_RETRIES :: nat where
  "MAX_RETRIES = 3"

definition RETRY_DELAY :: nat where
  "RETRY_DELAY = 2"

text \<open>
  What one run of the retry loop does to the outside: it tries to initialize (attempt
  number) and it sleeps (seconds). \<open>probe attempt\<close> is the outcome of creating the
  client and embedding the test query at that attempt: an exception or the test vector.
\<close>

datatype event = Attempt nat | Sleep nat

fun initialize_attempts :: "(nat \<Rightarrow> exn + rat list) \<Rightarrow> nat list \<Rightarrow> bool \<times> event list" where
  "initialize_attempts probe [] = (False, [])"
| "initialize_attempts probe (attempt # rest) =
    (case probe attempt of
       Inr test_result \<Rightarrow>
         if test_result \<noteq> [] \<and> length test_result > 0 then (True, [Attempt attempt])
         else (let (ok, evs) = initialize_attempts probe rest
               in (ok, Attempt attempt # evs))
     | Inl e \<Rightarrow>
         (let (ok, evs) = initialize_attempts probe rest
          in (ok, Attempt attempt # (if attempt < MAX_RETRIES then [Sleep RETRY_DELAY] else []) @ evs)))"

definition initialize :: "(nat \<Rightarrow> exn + rat list) \<Rightarrow> bool \<times> event list" where
  "initialize probe = initialize_attempts probe [1..<MAX_RETRIES + 1]"

subsection \<open>SOPIndexer.run\<close>

text \<open>
  The collaborators of one build: the configuration check, the documents found (each with
  its file name and its path), the loader, the text splitter, the clock, the embedding service, and the outcomes of
  creating, saving and validating the index, of the retrieval self-test and of saving the
  manifest (\<open>None\<close>: no exception).
\<close>

record build_world =
  config_valid :: bool
  found_documents :: "(string \<times> string) list"
  load_document :: "string \<Rightarrow> exn + Document list"
  split_documents :: "Document list \<Rightarrow> Document list"
  now_iso :: "nat \<Rightarrow> string"
  embed_test :: "nat \<Rightarrow> exn + rat list"
  from_documents :: "Document list \<Rightarrow> exn option"
  save_local :: "exn option"
  index_files_exist :: bool
  run_tests :: "exn option"
  save_info :: "exn option"

text \<open>What a build writes to durable storage.\<close>

datatype written = IndexWritten "Document list" | InfoWritten "Document list"

text \<open>
  \<open>MultiDocumentLoader.load\<close>: a document that fails to load is skipped; every loaded
  section gets the file name as its \<open>source\<close> (and the path as \<open>source_path\<close>).
\<close>

definition load :: "build_world \<Rightarrow> (string \<times> string) list \<Rightarrow> Document list" where
  "load b doc_paths =
    concat (map (\<lambda>(name, path).
      case load_document b path of
        Inl e \<Rightarrow> []
      | Inr documents \<Rightarrow>
          map (\<lambda>doc. doc\<lparr>metadata :=
                 dict_set (dict_set (metadata doc) ''source'' (MStr name))
                   ''source_path'' (MStr path)\<rparr>) documents) doc_paths)"

text \<open>
  The pipeline. The result is the exception that escapes (the self-test and the manifest
  statistics are outside every \<open>try\<close>) or the returned flag, together with what was
  written and the events of the embedding initialization.
\<close>

definition run :: "build_world \<Rightarrow> (exn + bool) \<times> written list \<times> event list" where
  "run b =
    (if \<not> config_valid b then (Inr False, [], [])
     else let doc_paths = found_documents b in
     if doc_paths = [] then (Inr False, [], [])
     else let documents = load b doc_paths in
     if documents = [] then (Inr False, [], [])
     else let chunks = split_documents b documents;
              enriched_chunks = enrich (now_iso b) chunks;
              (ok, evs) = initialize (embed_test b) in
     if \<not> ok then (Inr False, [], evs)
     else if from_documents b enriched_chunks \<noteq> None then (Inr False, [], evs)
     else if save_local b \<noteq> None then (Inr False, [], evs)
     else if \<not> index_files_exist b then (Inr False, [IndexWritten enriched_chunks], evs)
     else case run_tests b of
            Some e \<Rightarrow> (Inl e, [IndexWritten enriched_chunks], evs)
          | None \<Rightarrow>
              if enriched_chunks = []
              then (Inl (Raised ''division by zero''), [IndexWritten enriched_chunks], evs)
              else (Inr True,
                    IndexWritten enriched_chunks #
                      (if save_info b = None then [InfoWritten enriched_chunks] else []),
                    evs))"

section \<open>SOP service (src/services/sop\_service.py)\<close>

text \<open>
  \<open>cfg_top_k\<close> is \<open>get_config()["top_k"]\<close>. \<open>get_vectorstore\<close> is the outcome of
  \<open>get_vectorstore()\<close>: it raises (the index file is missing, loading fails) or yields
  the store, given by its \<open>similarity_search_with_score(query, k)\<close>, which raises or
  returns scored documents. The retriever of a store returns the documents of that search.
\<close>

type_synonym vectorstore = "string \<Rightarrow> int \<Rightarrow> exn + (Document \<times> rat) list"

record service_world =
  cfg_top_k :: int
  get_vectorstore :: "exn + vectorstore"

text \<open>\<open>top_k or config["top_k"]\<close>: \<open>None\<close> and \<open>0\<close> are falsy.\<close>

definition top_k_or :: "int option \<Rightarrow> int \<Rightarrow> int" where
  "top_k_or top_k dflt = (case top_k of None \<Rightarrow> dflt | Some n \<Rightarrow> if n = 0 then dflt else n)"

definition as_retriever :: "vectorstore \<Rightarrow> int \<Rightarrow> string \<Rightarrow> exn + Document list" where
  "as_retriever vs k query = (case vs query k of Inl e \<Rightarrow> Inl e | Inr rs \<Rightarrow> Inr (map fst rs))"

definition get_retriever :: "service_world \<Rightarrow> int option \<Rightarrow> exn + (string \<Rightarrow> exn + Document list)" where
  "get_retriever s top_k =
    (let k = top_k_or top_k (cfg_top_k s)
     in case get_vectorstore s of
          Inl e \<Rightarrow> Inl e
        | Inr vs \<Rightarrow> Inr (as_retriever vs k))"

definition search_sop :: "service_world \<Rightarrow> string \<Rightarrow> int option \<Rightarrow> exn + Document list" where
  "search_sop s query top_k =
    (case get_retriever s top_k of
       Inl e \<Rightarrow> Inl e
     | Inr retriever \<Rightarrow> retriever query)"

definition search_sop_with_scores ::
  "service_world \<Rightarrow> string \<Rightarrow> int option \<Rightarrow> exn + (Document \<times> rat) list" where
  "search_sop_with_scores s query top_k =
    (let k = top_k_or top_k (cfg_top_k s)
     in case get_vectorstore s of
          Inl e \<Rightarrow> Inl e
        | Inr vs \<Rightarrow> vs query k)"

section \<open>Tools (src/tools/search\_sop.py)\<close>

definition NO_RESULTS :: string where
  "NO_RESULTS = ''No relevant procedures found for this query.''"

definition SEPARATOR :: string where
  "SEPARATOR = [CHR 0x0A, CHR 0x0A] @ ''---'' @ [CHR 0x0A, CHR 0x0A]"

text \<open>
  One block of the search result: \<open>f"[{chunk_id}]\n{content}"\<close> for the \<open>i\<close>-th
  document (counted from 1).
\<close>

definition result_block :: "nat \<Rightarrow> Document \<Rightarrow> string" where
  "result_block i doc =
    (let chunk_id = dict_get (metadata doc) ''chunk_id'' (MStr (''result_'' @ str_nat i));
         content = strip (page_content doc)
     in ''['' @ str_meta chunk_id @ '']'' @ [CHR 0x0A] @ content)"

text \<open>\<open>for i, doc in enumerate(documents, 1): results.append(...)\<close>.\<close>

fun format_results :: "nat \<Rightarrow> Document list \<Rightarrow> string list \<Rightarrow> string list" where
  "format_results i [] results = results"
| "format_results i (doc # documents) results =
     format_results (Suc i) documents (results @ [result_block i doc])"

definition search_sop_tool :: "service_world \<Rightarrow> string \<Rightarrow> exn + string" where
  "search_sop_tool s query =
    (case search_sop s query None of
       Inl e \<Rightarrow> Inl e
     | Inr documents \<Rightarrow>
         if documents = [] then Inr NO_RESULTS
         else Inr (join SEPARATOR (format_results 1 documents [])))"

definition topic_queries :: "(string \<times> string) list" where
  "topic_queries =
    [(''greeting'', ''greeting caller opening phone answer''),
     (''scheduling'', ''schedule new appointment booking''),
     (''cancellation'', ''cancel appointment cancellation''),
     (''reschedule'', ''reschedule change appointment''),
     (''walk-in'', ''walk-in without appointment availability''),
     (''directions'', ''directions location clinic address''),
     (''wait times'', ''wait time current delay how long''),
     (''late arrival'', ''late arrival 15 minute policy running late''),
     (''online booking'', ''online website scheduling book appointment''),
     (''closing'', ''closing end call goodbye hang up''),
     (''hold'', ''hold waiting please hold''),
     (''communication'', ''communication guidelines tone professional'')]"

text \<open>The query \<open>get_procedure\<close> searches for, and the documents it gets back.\<close>

definition procedure_query :: "string \<Rightarrow> string" where
  "procedure_query topic = dict_get topic_queries (lower topic) topic"

definition procedure_documents :: "service_world \<Rightarrow> string \<Rightarrow> exn + Document list" where
  "procedure_documents s topic = search_sop s (procedure_query topic) None"

definition get_procedure :: "service_world \<Rightarrow> string \<Rightarrow> exn + string" where
  "get_procedure s topic =
    (case procedure_documents s topic of
       Inl e \<Rightarrow> Inl e
     | Inr documents \<Rightarrow>
         (case documents of
            [] \<Rightarrow> Inr (''No procedure found for topic: '' @ topic)
          | top_doc # others \<Rightarrow>
              Inr (''Procedure for '' @ [CHR 0x27] @ topic @ [CHR 0x27] @ '':''
                   @ [CHR 0x0A, CHR 0x0A] @ strip (page_content top_doc))))"

section \<open>Reading chunk ids\<close>

text \<open>
  The number a string of decimal digits denotes, the \<open>chunk_id\<close> entry of a document as a
  string, and the sequence number that a chunk id of the form \<open>chunk_NNN\<close> carries after
  its six-character prefix.
\<close>

definition digits_value :: "string \<Rightarrow> nat" where
  "digits_value s = foldl (\<lambda>a c. 10 * a + (of_char c - 48)) 0 s"

definition chunk_id_of :: "Document \<Rightarrow> string" where
  "chunk_id_of d = str_meta (dict_get (metadata d) ''chunk_id'' (MStr []))"

definition chunk_number :: "Document \<Rightarrow> nat" where
  "chunk_number d = digits_value (drop 6 (chunk_id_of d))"

section \<open>Concrete scenarios\<close>

text \<open>A six-chunk document as the splitter hands it to the enricher.\<close>

definition demo_chunks :: "Document list" where
  "demo_chunks = map (\<lambda>c. \<lparr>page_content = c, metadata = [(''source'', MStr ''sop.docx'')]\<rparr>)
     [''Greeting'', ''Scheduling an appointment'', ''Walk-in policy'', ''Late arrival'',
      ''Directions'', ''Closing the call'']"

text \<open>
  The chunks of a build over two documents of three chunks each, and a document of five
  chunks.
\<close>

definition two_document_chunks :: "Document list" where
  "two_document_chunks =
     map (\<lambda>c. \<lparr>page_content = c, metadata = [(''source'', MStr ''calls.docx'')]\<rparr>)
       [''Greeting'', ''Scheduling'', ''Closing'']
     @ map (\<lambda>c. \<lparr>page_content = c, metadata = [(''source'', MStr ''visits.docx'')]\<rparr>)
       [''Walk-in policy'', ''Late arrival'', ''Directions'']"

definition now_iso_demo :: "nat \<Rightarrow> string" where
  "now_iso_demo i = ''2026-01-01T00:00:00''"

definition five_chunks :: "Document list" where
  "five_chunks = map (\<lambda>c. \<lparr>page_content = c, metadata = [(''source'', MStr ''sop.docx'')]\<rparr>)
     [''Greeting'', ''Scheduling'', ''Walk-in policy'', ''Late arrival'', ''Closing'']"

text \<open>
  A small index of four chunks, one of them without a chunk id, two of them with
  whitespace around the text (spaces, a no-break space, a next-line control), behind a store that returns
  its first \<open>k\<close> chunks for every query, and a service configured with the default
  top-K of 3.
\<close>

definition demo_docs :: "Document list" where
  "demo_docs =
    [\<lparr>page_content = [CHR 0xA0] @ '' Patients arriving more than 15 minutes late may be rescheduled. '',
      metadata = [(''chunk_id'', MStr ''chunk_007'')]\<rparr>,
     \<lparr>page_content = [CHR 0x0A] @ ''Walk-ins are welcome.'' @ [CHR 0x85, CHR 0xA0], metadata = []\<rparr>,
     \<lparr>page_content = ''Greet the caller.'', metadata = [(''chunk_id'', MStr ''chunk_001'')]\<rparr>,
     \<lparr>page_content = ''Offer the scheduling link.'', metadata = [(''chunk_id'', MStr ''chunk_002'')]\<rparr>]"

definition demo_store :: vectorstore where
  "demo_store query k = Inr (map (\<lambda>d. (d, 0)) (take (nat k) demo_docs))"

definition demo_service :: service_world where
  "demo_service = \<lparr>cfg_top_k = 3, get_vectorstore = Inr demo_store\<rparr>"

text \<open>Two embedding services: one that always returns an empty test vector, one that always raises.\<close>

definition empty_vector_probe :: "nat \<Rightarrow> exn + rat list" where
  "empty_vector_probe attempt = Inr []"

definition raising_probe :: "nat \<Rightarrow> exn + rat list" where
  "raising_probe attempt = Inl (Raised ''connection refused'')"

definition is_attempt :: "event \<Rightarrow> bool" where
  "is_attempt e = (case e of Attempt k \<Rightarrow> True | Sleep d \<Rightarrow> False)"

text \<open>
  Worlds for the agent graph. All share the prompt texts and the ids the runtime draws
  (\<open>uuid-j-i\<close> for position \<open>i\<close> of merge \<open>j\<close>) and differ in what the model and the tool
  executor do and in the step limit of the graph runtime.
  \<^item> \<open>world_model_down\<close>: every model call raises.
  \<^item> \<open>world_tool_down\<close>: the model asks for a tool in its first reply; the tool executor
    raises every time; every later model call raises, since the request it is sent ends
    with a tool request that has no tool result.
  \<^item> \<open>chatty_world n limit\<close>: the model asks for a tool in its first \<open>n\<close> replies (the
    agent node runs at the even steps) and then answers; the tools work; the reply of
    step \<open>k\<close> comes with the id \<open>run-k\<close>.
\<close>

definition demo_templates :: templates where
  "demo_templates =
    \<lparr>SYSTEM_PROMPT = ''You are Sarah, a friendly and professional voice assistant for WellStreet Urgent Care clinic.'',
     VOICE_RESPONSE_PROMPT = ''Based on the SOP information retrieved, generate a natural spoken response.'',
     TOOL_SELECTION_PROMPT = ''Analyze the caller's request and determine the best action.''\<rparr>"

definition demo_uuid4 :: "nat \<Rightarrow> nat \<Rightarrow> string" where
  "demo_uuid4 j i = ''uuid-'' @ str_nat j @ ''-'' @ str_nat i"

definition make_world ::
  "(nat \<Rightarrow> message list \<Rightarrow> exn + (string \<times> tool_call list \<times> string option)) \<Rightarrow>
   (nat \<Rightarrow> message list \<Rightarrow> exn + string list option) \<Rightarrow> nat \<Rightarrow> world" where
  "make_world model executor limit =
     \<lparr>SYSTEM_PROMPT = SYSTEM_PROMPT demo_templates,
      VOICE_RESPONSE_PROMPT = VOICE_RESPONSE_PROMPT demo_templates,
      TOOL_SELECTION_PROMPT = TOOL_SELECTION_PROMPT demo_templates,
      llm_invoke = model,
      tool_executor_invoke = executor,
      recursion_limit = limit,
      uuid4 = demo_uuid4\<rparr>"

definition world_model_down :: world where
  "world_model_down =
     make_world (\<lambda>k msgs. Inl (Raised ''Connection error.''))
       (\<lambda>k msgs. Inr (Some [''[chunk_005] Walk-ins are welcome.''])) 25"

definition world_tool_down :: world where
  "world_tool_down =
     make_world
       (\<lambda>k msgs. if k = 0 then Inr ([], [(''search_sop_tool'', ''walk-in policy'')], Some ''run-0'')
                  else Inl (Raised ''tool_calls must be followed by tool messages''))
       (\<lambda>k msgs. Inl (Raised ''FAISS index not found'')) 25"

definition chatty_world :: "nat \<Rightarrow> nat \<Rightarrow> world" where
  "chatty_world n limit =
     make_world
       (\<lambda>k msgs. if k < 2 * n
                  then Inr ([], [(''search_sop_tool'', ''walk-in policy'')], Some (''run-'' @ str_nat k))
                  else Inr (''Yes, walk-ins are welcome.'', [], Some (''run-'' @ str_nat k)))
       (\<lambda>k msgs. Inr (Some [''[chunk_005] Walk-ins are welcome.''])) limit"


section \<open>The metadata enricher\<close>

lemma length_enrich_from: "length (enrich_from now t k chunks) = length chunks"
  by (induction chunks arbitrary: k) simp_all

lemma nth_enrich_from:
  "i < length chunks \<Longrightarrow> enrich_from now t k chunks ! i = enrich_chunk now t (k + i) (chunks ! i)"
proof (induction chunks arbitrary: k i)
  case Nil
  then show ?case by simp
next
  case (Cons c cs)
  then show ?case by (cases i) simp_all
qed

lemma length_enrich: "length (enrich now chunks) = length chunks"
  by (simp add: enrich_def length_enrich_from)

lemma nth_enrich:
  "i < length chunks \<Longrightarrow> enrich now chunks ! i = enrich_chunk now (length chunks) i (chunks ! i)"
  by (simp add: enrich_def nth_enrich_from)

lemma position_of_int:
  "0 < n \<Longrightarrow> position_of i n =
     (if 5 * i < n then ''beginning'' else if 4 * n < 5 * i then ''end'' else ''middle'')"
proof -
  assume n: "0 < n"
  have a: "(of_nat i / of_nat n * 100 < (20 :: rat)) = (5 * i < n)"
  proof -
    have "(of_nat i / of_nat n * 100 < (20 :: rat)) = ((of_nat (5 * i) :: rat) < of_nat n)"
      using n by (simp add: field_simps)
    then show ?thesis by (simp only: of_nat_less_iff)
  qed
  have b: "((80 :: rat) < of_nat i / of_nat n * 100) = (4 * n < 5 * i)"
  proof -
    have "((80 :: rat) < of_nat i / of_nat n * 100) = ((of_nat (4 * n) :: rat) < of_nat (5 * i))"
      using n by (simp add: field_simps)
    then show ?thesis by (simp only: of_nat_less_iff)
  qed
  show ?thesis by (simp only: position_of_def position_pct_def a b)
qed

lemma position_spec_int:
  "0 < n \<Longrightarrow> position_spec (of_nat i / of_nat n) =
     (if 5 * i < n then ''beginning'' else if 4 * n \<le> 5 * i then ''end'' else ''middle'')"
proof -
  assume n: "0 < n"
  have a: "(of_nat i / of_nat n < (1 / 5 :: rat)) = (5 * i < n)"
  proof -
    have "(of_nat i / of_nat n < (1 / 5 :: rat)) = ((of_nat (5 * i) :: rat) < of_nat n)"
      using n by (simp add: field_simps)
    then show ?thesis by (simp only: of_nat_less_iff)
  qed
  have b: "((4 / 5 :: rat) \<le> of_nat i / of_nat n) = (4 * n \<le> 5 * i)"
  proof -
    have "((4 / 5 :: rat) \<le> of_nat i / of_nat n) = ((of_nat (4 * n) :: rat) \<le> of_nat (5 * i))"
      using n by (simp add: field_simps)
    then show ?thesis by (simp only: of_nat_le_iff)
  qed
  show ?thesis by (simp only: position_spec_def a b)
qed

text \<open>
  Claim C5, as the code has it. The \<open>position\<close> of a chunk comes from its index \<open>i\<close> in
  the chunk sequence of the whole build (the chunks of all documents, one after another)
  and the total number of chunks of the build: \<open>beginning\<close> when \<open>i / total\<close> is below
  20 percent, \<open>end\<close> when it is above 80 percent, \<open>middle\<close> otherwise, a chunk at exactly
  80 percent included. Except at exactly 80 percent this is the bucket in the spec's words
  of the offset in the build's chunk sequence.
\<close>

theorem enrich_position:
  "i < length chunks \<Longrightarrow>
     map_of (metadata (enrich now chunks ! i)) ''position''
       = Some (MStr (if 5 * i < length chunks then ''beginning''
                     else if 4 * length chunks < 5 * i then ''end'' else ''middle''))
     \<and> (5 * i \<noteq> 4 * length chunks \<longrightarrow>
          map_of (metadata (enrich now chunks ! i)) ''position''
            = Some (MStr (position_spec (of_nat i / of_nat (length chunks)))))"
proof -
  assume i: "i < length chunks"
  then have n: "0 < length chunks" by (cases chunks) simp_all
  have p: "map_of (metadata (enrich now chunks ! i)) ''position''
             = Some (MStr (position_of i (length chunks)))"
    using i by (simp add: nth_enrich enrich_chunk_def Let_def)
  have "5 * i \<noteq> 4 * length chunks \<Longrightarrow>
          position_spec (of_nat i / of_nat (length chunks)) = position_of i (length chunks)"
    by (simp only: position_spec_int [OF n] position_of_int [OF n]) auto
  with p show ?thesis
    by (simp add: position_of_int [OF n])
qed

theorem enrich_position_witness:
  "(5::nat) < length demo_chunks \<and> 5 * (5::nat) \<noteq> 4 * length demo_chunks \<and>
   map_of (metadata (enrich (\<lambda>i. ''2026-01-01T00:00:00'') demo_chunks ! 5)) ''position''
     = Some (MStr ''end'') \<and>
   position_spec (of_nat 5 / of_nat (length demo_chunks)) = ''end''"
proof -
  have l: "length demo_chunks = 6" by (simp add: demo_chunks_def)
  have a: "(5::nat) < length demo_chunks" and b: "5 * (5::nat) \<noteq> 4 * length demo_chunks"
    by (simp_all add: l)
  from enrich_position [OF a, of "\<lambda>i. ''2026-01-01T00:00:00''"] b
  have "map_of (metadata (enrich (\<lambda>i. ''2026-01-01T00:00:00'') demo_chunks ! 5)) ''position''
          = Some (MStr (if 5 * 5 < length demo_chunks then ''beginning''
                     else if 4 * length demo_chunks < 5 * 5 then ''end'' else ''middle''))"
    and "map_of (metadata (enrich (\<lambda>i. ''2026-01-01T00:00:00'') demo_chunks ! 5)) ''position''
          = Some (MStr (position_spec (of_nat 5 / of_nat (length demo_chunks))))"
    by blast+
  then show ?thesis using a b by (simp add: l)
qed

text \<open>
  Claim C5 as stated fails twice. In a build over two documents the first chunk of the
  second document stands at the very beginning of its document and is labelled
  \<open>middle\<close>, because the offset is taken in the chunk sequence of the whole build. And the
  last of the five chunks of a single document, which fills the last 20 percent of it, is
  labelled \<open>middle\<close>, because the comparison with 80 percent is strict.
\<close>

theorem enrich_position_counterexample:
  "map_of (metadata (enrich now_iso_demo two_document_chunks ! 3)) ''position'' = Some (MStr ''middle'')
   \<and> position_spec (document_offset two_document_chunks 3) = ''beginning''
   \<and> map_of (metadata (enrich now_iso_demo five_chunks ! 4)) ''position'' = Some (MStr ''middle'')
   \<and> position_spec (document_offset five_chunks 4) = ''end''"
  by code_simp

lemma digits_value_snoc:
  "digits_value (s @ [c]) = 10 * digits_value s + (of_char c - 48)"
  by (simp add: digits_value_def)

lemma of_char_digit_char: "d < 10 \<Longrightarrow> (of_char (digit_char d) :: nat) = 48 + d"
  by (simp add: digit_char_def)

lemma digits_value_str_nat: "digits_value (str_nat n) = n"
proof (induction n rule: str_nat.induct)
  case (1 n)
  show ?case
  proof (cases "n < 10")
    case True
    then show ?thesis
      by (subst str_nat.simps) (simp add: digits_value_def of_char_digit_char)
  next
    case False
    then have "digits_value (str_nat (n div 10)) = n div 10"
      using 1 by simp
    then show ?thesis
      using False by (subst str_nat.simps) (simp add: digits_value_snoc of_char_digit_char)
  qed
qed

lemma digits_value_zeros: "digits_value (replicate k CHR ''0'' @ s) = digits_value s"
proof -
  have "foldl (\<lambda>a c. 10 * a + (of_char c - 48)) 0 (replicate k CHR ''0'') = (0::nat)"
    by (induction k) simp_all
  then show ?thesis by (simp add: digits_value_def)
qed

lemma digits_value_fmt_03d: "digits_value (fmt_03d n) = n"
  by (simp add: fmt_03d_def digits_value_zeros digits_value_str_nat)

lemma chunk_id_of_enrich:
  "i < length chunks \<Longrightarrow> chunk_id_of (enrich now chunks ! i) = ''chunk_'' @ fmt_03d (i + 1)"
  by (simp add: nth_enrich enrich_chunk_def Let_def chunk_id_of_def dict_get_def)

lemma chunk_number_enrich:
  "i < length chunks \<Longrightarrow> chunk_number (enrich now chunks ! i) = i + 1"
  by (simp add: chunk_number_def chunk_id_of_enrich digits_value_fmt_03d)

lemma distinct_chunk_ids: "distinct (map chunk_id_of (enrich now chunks))"
  unfolding distinct_conv_nth
proof (intro allI impI)
  fix i j
  assume "i < length (map chunk_id_of (enrich now chunks))"
    and "j < length (map chunk_id_of (enrich now chunks))" and ne: "i \<noteq> j"
  then have i: "i < length chunks" and j: "j < length chunks"
    by (simp_all add: length_enrich)
  show "map chunk_id_of (enrich now chunks) ! i \<noteq> map chunk_id_of (enrich now chunks) ! j"
  proof
    assume "map chunk_id_of (enrich now chunks) ! i = map chunk_id_of (enrich now chunks) ! j"
    then have "chunk_id_of (enrich now chunks ! i) = chunk_id_of (enrich now chunks ! j)"
      using i j by (simp add: length_enrich)
    then have "chunk_number (enrich now chunks ! i) = chunk_number (enrich now chunks ! j)"
      by (simp add: chunk_number_def)
    then show False
      using i j ne by (simp add: chunk_number_enrich)
  qed
qed

text \<open>
  Claim C6. In one build every enriched chunk keeps its content and records
  \<open>char_count = len(content)\<close>; the chunk at index \<open>i\<close> gets the id \<open>chunk_\<close> followed
  by \<open>i + 1\<close> zero-padded to three digits; the ids are pairwise distinct, and the sequence
  numbers they carry increase strictly along the chunk sequence.
\<close>

theorem enrich_char_count_and_ids:
  "length (enrich now chunks) = length chunks
   \<and> (\<forall>i < length chunks.
        page_content (enrich now chunks ! i) = page_content (chunks ! i)
        \<and> map_of (metadata (enrich now chunks ! i)) ''char_count''
            = Some (MInt (int (length (page_content (enrich now chunks ! i)))))
        \<and> map_of (metadata (enrich now chunks ! i)) ''chunk_id''
            = Some (MStr (''chunk_'' @ fmt_03d (i + 1)))
        \<and> map_of (metadata (enrich now chunks ! i)) ''index'' = Some (MInt (int i + 1))
        \<and> chunk_number (enrich now chunks ! i) = i + 1)
   \<and> distinct (map chunk_id_of (enrich now chunks))
   \<and> sorted_wrt (<) (map chunk_number (enrich now chunks))"
proof -
  have "sorted_wrt (<) (map chunk_number (enrich now chunks))"
    by (simp add: sorted_wrt_iff_nth_less length_enrich chunk_number_enrich)
  moreover have "\<forall>i < length chunks.
        page_content (enrich now chunks ! i) = page_content (chunks ! i)
        \<and> map_of (metadata (enrich now chunks ! i)) ''char_count''
            = Some (MInt (int (length (page_content (enrich now chunks ! i)))))
        \<and> map_of (metadata (enrich now chunks ! i)) ''chunk_id''
            = Some (MStr (''chunk_'' @ fmt_03d (i + 1)))
        \<and> map_of (metadata (enrich now chunks ! i)) ''index'' = Some (MInt (int i + 1))
        \<and> chunk_number (enrich now chunks ! i) = i + 1"
  proof (intro allI impI)
    fix i
    assume i: "i < length chunks"
    have "chunk_number (enrich now chunks ! i) = i + 1"
      using i by (rule chunk_number_enrich)
    moreover have "page_content (enrich now chunks ! i) = page_content (chunks ! i)"
      using i by (simp add: nth_enrich enrich_chunk_def Let_def)
    moreover have "map_of (metadata (enrich now chunks ! i)) ''char_count''
            = Some (MInt (int (length (page_content (enrich now chunks ! i)))))"
      using i by (simp add: nth_enrich enrich_chunk_def Let_def)
    moreover have "map_of (metadata (enrich now chunks ! i)) ''chunk_id''
            = Some (MStr (''chunk_'' @ fmt_03d (i + 1)))"
      using i by (simp add: nth_enrich enrich_chunk_def Let_def)
    moreover have "map_of (metadata (enrich now chunks ! i)) ''index'' = Some (MInt (int i + 1))"
      using i by (simp add: nth_enrich enrich_chunk_def Let_def)
    ultimately show "page_content (enrich now chunks ! i) = page_content (chunks ! i)
        \<and> map_of (metadata (enrich now chunks ! i)) ''char_count''
            = Some (MInt (int (length (page_content (enrich now chunks ! i)))))
        \<and> map_of (metadata (enrich now chunks ! i)) ''chunk_id''
            = Some (MStr (''chunk_'' @ fmt_03d (i + 1)))
        \<and> map_of (metadata (enrich now chunks ! i)) ''index'' = Some (MInt (int i + 1))
        \<and> chunk_number (enrich now chunks ! i) = i + 1"
      by blast
  qed
  ultimately show ?thesis
    using length_enrich distinct_chunk_ids by blast
qed

theorem enrich_char_count_and_ids_witness:
  "(2::nat) < length demo_chunks
   \<and> map_of (metadata (enrich (\<lambda>i. ''2026-01-01T00:00:00'') demo_chunks ! 2)) ''char_count'' = Some (MInt 14)
   \<and> page_content (enrich (\<lambda>i. ''2026-01-01T00:00:00'') demo_chunks ! 2) = ''Walk-in policy''
   \<and> map_of (metadata (enrich (\<lambda>i. ''2026-01-01T00:00:00'') demo_chunks ! 2)) ''chunk_id'' = Some (MStr ''chunk_003'')"
proof -
  have l: "(2::nat) < length demo_chunks" by (simp add: demo_chunks_def)
  have f: "fmt_03d 3 = ''003''" by code_simp
  have c: "demo_chunks ! 2 = \<lparr>page_content = ''Walk-in policy'', metadata = [(''source'', MStr ''sop.docx'')]\<rparr>"
    by (simp add: demo_chunks_def)
  from enrich_char_count_and_ids [of "\<lambda>i. ''2026-01-01T00:00:00''" demo_chunks] l
  show ?thesis by (auto simp: f c)
qed

section \<open>The SOP service\<close>

lemma top_k_or_falsy: "top_k_or (Some 0) d = d" "top_k_or None d = d"
  by (simp_all add: top_k_or_def)

text \<open>
  Claim C10. \<open>get_retriever\<close> and \<open>search_sop_with_scores\<close> treat \<open>top_k = 0\<close> exactly
  like \<open>top_k = None\<close>: the number of results requested from the store is the configured
  default top-K, which is not zero when the configured default is not zero.
\<close>

theorem falsy_top_k_requests_default:
  "get_retriever s (Some 0) = get_retriever s None
   \<and> search_sop_with_scores s query (Some 0) = search_sop_with_scores s query None
   \<and> top_k_or (Some 0) (cfg_top_k s) = cfg_top_k s
   \<and> top_k_or None (cfg_top_k s) = cfg_top_k s
   \<and> (get_vectorstore s = Inr vs \<longrightarrow>
        get_retriever s (Some 0) = Inr (as_retriever vs (cfg_top_k s))
        \<and> search_sop_with_scores s query (Some 0) = vs query (cfg_top_k s))
   \<and> (cfg_top_k s \<noteq> 0 \<longrightarrow> top_k_or (Some 0) (cfg_top_k s) \<noteq> 0)"
  by (simp add: get_retriever_def search_sop_with_scores_def top_k_or_falsy)

theorem falsy_top_k_requests_default_witness:
  "get_vectorstore demo_service = Inr demo_store \<and> cfg_top_k demo_service \<noteq> 0
   \<and> search_sop_with_scores demo_service ''walk-in'' (Some 0) = demo_store ''walk-in'' 3
   \<and> get_retriever demo_service (Some 0) = Inr (as_retriever demo_store 3)
   \<and> top_k_or (Some 0) (cfg_top_k demo_service) = 3"
  using falsy_top_k_requests_default [of demo_service "''walk-in''" demo_store]
  by (auto simp: demo_service_def)

section \<open>The tools\<close>

lemma format_results_enumerate:
  "format_results i documents results
     = results @ map (\<lambda>(j, doc). result_block j doc) (enumerate i documents)"
  by (induction documents arbitrary: i results) simp_all

lemma search_sop_store:
  "get_vectorstore s = Inr vs \<Longrightarrow> vs query (top_k_or top_k (cfg_top_k s)) = Inr rs \<Longrightarrow>
     search_sop s query top_k = Inr (map fst rs)"
  by (simp add: search_sop_def get_retriever_def as_retriever_def)

text \<open>
  Claim C8. When the search behind the tool returns (the store is there and answers the
  request for the configured top-K chunks), \<open>search_sop_tool\<close> returns a string: the fixed
  sentinel when no chunk came back, otherwise one block per returned chunk, in the order
  returned, joined by the separator; a block is the chunk id in square brackets (or
  \<open>result_i\<close> for the \<open>i\<close>-th chunk when it has no id), a line break and the stripped
  content.
\<close>

theorem search_sop_tool_blocks:
  "get_vectorstore s = Inr vs \<Longrightarrow> vs query (cfg_top_k s) = Inr rs \<Longrightarrow>
     search_sop_tool s query =
       Inr (if rs = [] then ''No relevant procedures found for this query.''
            else join ([CHR 0x0A, CHR 0x0A] @ ''---'' @ [CHR 0x0A, CHR 0x0A])
                   (map (\<lambda>(i, doc).
                           ''['' @ str_meta (dict_get (metadata doc) ''chunk_id'' (MStr (''result_'' @ str_nat i)))
                           @ '']'' @ [CHR 0x0A] @ strip (page_content doc))
                        (enumerate 1 (map fst rs))))"
proof -
  assume vs: "get_vectorstore s = Inr vs" and rs: "vs query (cfg_top_k s) = Inr rs"
  have "search_sop s query None = Inr (map fst rs)"
    using vs rs by (simp add: search_sop_store top_k_or_falsy)
  then show ?thesis
    by (simp add: search_sop_tool_def format_results_enumerate NO_RESULTS_def SEPARATOR_def
        result_block_def Let_def)
qed

theorem search_sop_tool_blocks_witness:
  "get_vectorstore demo_service = Inr demo_store
   \<and> demo_store ''walk in'' (cfg_top_k demo_service) = Inr (map (\<lambda>d. (d, 0)) (take 3 demo_docs))
   \<and> search_sop_tool demo_service ''walk in'' =
       Inr (''[chunk_007]'' @ [CHR 0x0A] @ ''Patients arriving more than 15 minutes late may be rescheduled.''
            @ [CHR 0x0A, CHR 0x0A] @ ''---'' @ [CHR 0x0A, CHR 0x0A]
            @ ''[result_2]'' @ [CHR 0x0A] @ ''Walk-ins are welcome.''
            @ [CHR 0x0A, CHR 0x0A] @ ''---'' @ [CHR 0x0A, CHR 0x0A]
            @ ''[chunk_001]'' @ [CHR 0x0A] @ ''Greet the caller.'')"
proof -
  have a: "get_vectorstore demo_service = Inr demo_store"
    by (simp add: demo_service_def)
  have b: "demo_store ''walk in'' (cfg_top_k demo_service) = Inr (map (\<lambda>d. (d, 0)) (take 3 demo_docs))"
    by (simp add: demo_service_def demo_store_def)
  have c: "(if map (\<lambda>d. (d, 0::rat)) (take 3 demo_docs) = [] then ''No relevant procedures found for this query.''
            else join ([CHR 0x0A, CHR 0x0A] @ ''---'' @ [CHR 0x0A, CHR 0x0A])
                   (map (\<lambda>(i, doc).
                           ''['' @ str_meta (dict_get (metadata doc) ''chunk_id'' (MStr (''result_'' @ str_nat i)))
                           @ '']'' @ [CHR 0x0A] @ strip (page_content doc))
                        (enumerate 1 (map fst (map (\<lambda>d. (d, 0::rat)) (take 3 demo_docs))))))
           = ''[chunk_007]'' @ [CHR 0x0A] @ ''Patients arriving more than 15 minutes late may be rescheduled.''
            @ [CHR 0x0A, CHR 0x0A] @ ''---'' @ [CHR 0x0A, CHR 0x0A]
            @ ''[result_2]'' @ [CHR 0x0A] @ ''Walk-ins are welcome.''
            @ [CHR 0x0A, CHR 0x0A] @ ''---'' @ [CHR 0x0A, CHR 0x0A]
            @ ''[chunk_001]'' @ [CHR 0x0A] @ ''Greet the caller.''"
    by code_simp
  have "search_sop_tool demo_service ''walk in'' =
       Inr (''[chunk_007]'' @ [CHR 0x0A] @ ''Patients arriving more than 15 minutes late may be rescheduled.''
            @ [CHR 0x0A, CHR 0x0A] @ ''---'' @ [CHR 0x0A, CHR 0x0A]
            @ ''[result_2]'' @ [CHR 0x0A] @ ''Walk-ins are welcome.''
            @ [CHR 0x0A, CHR 0x0A] @ ''---'' @ [CHR 0x0A, CHR 0x0A]
            @ ''[chunk_001]'' @ [CHR 0x0A] @ ''Greet the caller.'')"
    using search_sop_tool_blocks [OF a b] by (simp only: c)
  with a b show ?thesis by blast
qed

lemma procedure_query_late: "procedure_query ''Late Arrival'' = ''late arrival 15 minute policy running late''"
  by code_simp

text \<open>
  Claim C7, as the code has it. \<open>get_procedure\<close> looks the lowercased topic up in the fixed
  table and falls back to the raw topic; it searches with the configured default top-K
  (not with a single-result request) and uses only the first chunk returned: the result is
  that chunk's stripped content after \<open>Procedure for '<topic>':\<close> and an empty line, or
  the message \<open>No procedure found for topic: <topic>\<close> when nothing came back.
\<close>

theorem get_procedure_default_top_k:
  "get_vectorstore s = Inr vs \<Longrightarrow> vs (procedure_query topic) (cfg_top_k s) = Inr rs \<Longrightarrow>
     procedure_query topic = (case map_of topic_queries (lower topic) of Some q \<Rightarrow> q | None \<Rightarrow> topic)
     \<and> procedure_documents s topic = Inr (map fst rs)
     \<and> get_procedure s topic =
         Inr (case rs of
                [] \<Rightarrow> ''No procedure found for topic: '' @ topic
              | (top_doc, score) # rest \<Rightarrow>
                  ''Procedure for '' @ [CHR 0x27] @ topic @ [CHR 0x27] @ '':''
                  @ [CHR 0x0A, CHR 0x0A] @ strip (page_content top_doc))"
proof -
  assume vs: "get_vectorstore s = Inr vs" and rs: "vs (procedure_query topic) (cfg_top_k s) = Inr rs"
  have d: "procedure_documents s topic = Inr (map fst rs)"
    using vs rs by (simp add: procedure_documents_def search_sop_store top_k_or_falsy)
  have "get_procedure s topic =
         Inr (case rs of
                [] \<Rightarrow> ''No procedure found for topic: '' @ topic
              | (top_doc, score) # rest \<Rightarrow>
                  ''Procedure for '' @ [CHR 0x27] @ topic @ [CHR 0x27] @ '':''
                  @ [CHR 0x0A, CHR 0x0A] @ strip (page_content top_doc))"
    by (simp add: get_procedure_def d split: list.splits)
  with d show ?thesis
    by (simp add: procedure_query_def dict_get_def)
qed

theorem get_procedure_default_top_k_witness:
  "get_vectorstore demo_service = Inr demo_store
   \<and> demo_store (procedure_query ''Late Arrival'') (cfg_top_k demo_service)
        = Inr (map (\<lambda>d. (d, 0)) (take 3 demo_docs))
   \<and> procedure_query ''Late Arrival'' = ''late arrival 15 minute policy running late''
   \<and> get_procedure demo_service ''Late Arrival'' =
        Inr (''Procedure for '' @ [CHR 0x27] @ ''Late Arrival'' @ [CHR 0x27] @ '':'' @ [CHR 0x0A, CHR 0x0A]
             @ ''Patients arriving more than 15 minutes late may be rescheduled.'')"
proof -
  have a: "get_vectorstore demo_service = Inr demo_store"
    by (simp add: demo_service_def)
  have b: "demo_store (procedure_query ''Late Arrival'') (cfg_top_k demo_service)
        = Inr (map (\<lambda>d. (d, 0)) (take 3 demo_docs))"
    by (simp add: demo_service_def demo_store_def)
  have c: "(case map (\<lambda>d. (d, 0::rat)) (take 3 demo_docs) of
                [] \<Rightarrow> ''No procedure found for topic: '' @ ''Late Arrival''
              | (top_doc, score) # rest \<Rightarrow>
                  ''Procedure for '' @ [CHR 0x27] @ ''Late Arrival'' @ [CHR 0x27] @ '':''
                  @ [CHR 0x0A, CHR 0x0A] @ strip (page_content top_doc))
           = ''Procedure for '' @ [CHR 0x27] @ ''Late Arrival'' @ [CHR 0x27] @ '':'' @ [CHR 0x0A, CHR 0x0A]
             @ ''Patients arriving more than 15 minutes late may be rescheduled.''"
    by code_simp
  have "get_procedure demo_service ''Late Arrival'' =
        Inr (''Procedure for '' @ [CHR 0x27] @ ''Late Arrival'' @ [CHR 0x27] @ '':'' @ [CHR 0x0A, CHR 0x0A]
             @ ''Patients arriving more than 15 minutes late may be rescheduled.'')"
    using get_procedure_default_top_k [OF a b] by (simp only: c)
  with a b procedure_query_late show ?thesis by blast
qed

text \<open>
  Claim C7 as stated fails: with the default top-K of 3 the search that \<open>get_procedure\<close>
  performs for \<open>late arrival\<close> brings back three chunks, where a single-result search
  brings back one.
\<close>

theorem get_procedure_single_result_counterexample:
  "procedure_documents demo_service ''late arrival'' = Inr (take 3 demo_docs)
   \<and> search_sop demo_service (procedure_query ''late arrival'') (Some 1) = Inr (take 1 demo_docs)
   \<and> take 3 demo_docs \<noteq> take 1 demo_docs"
  by (simp add: procedure_documents_def search_sop_def get_retriever_def as_retriever_def
      top_k_or_def demo_service_def demo_store_def demo_docs_def comp_def)

section \<open>The embedding initialization and the build\<close>

lemma initialize_raising:
  "initialize raising_probe = (False, [Attempt 1, Sleep 2, Attempt 2, Sleep 2, Attempt 3])"
  by (simp add: initialize_def MAX_RETRIES_def RETRY_DELAY_def raising_probe_def upt_rec)

lemma attempts_list: "[1..<MAX_RETRIES + 1] = [1, 2, 3]"
  by (simp add: MAX_RETRIES_def upt_rec)

lemma initialize_cases:
  "initialize probe =
    (case probe 1 of
       Inr v1 \<Rightarrow> if v1 \<noteq> [] then (True, [Attempt 1]) else
         (case probe 2 of
            Inr v2 \<Rightarrow> if v2 \<noteq> [] then (True, [Attempt 1, Attempt 2]) else
              (case probe 3 of
                 Inr v3 \<Rightarrow> if v3 \<noteq> [] then (True, [Attempt 1, Attempt 2, Attempt 3])
                            else (False, [Attempt 1, Attempt 2, Attempt 3])
               | Inl e3 \<Rightarrow> (False, [Attempt 1, Attempt 2, Attempt 3]))
          | Inl e2 \<Rightarrow>
              (case probe 3 of
                 Inr v3 \<Rightarrow> if v3 \<noteq> [] then (True, [Attempt 1, Attempt 2, Sleep 2, Attempt 3])
                            else (False, [Attempt 1, Attempt 2, Sleep 2, Attempt 3])
               | Inl e3 \<Rightarrow> (False, [Attempt 1, Attempt 2, Sleep 2, Attempt 3])))
     | Inl e1 \<Rightarrow>
         (case probe 2 of
            Inr v2 \<Rightarrow> if v2 \<noteq> [] then (True, [Attempt 1, Sleep 2, Attempt 2]) else
              (case probe 3 of
                 Inr v3 \<Rightarrow> if v3 \<noteq> [] then (True, [Attempt 1, Sleep 2, Attempt 2, Attempt 3])
                            else (False, [Attempt 1, Sleep 2, Attempt 2, Attempt 3])
               | Inl e3 \<Rightarrow> (False, [Attempt 1, Sleep 2, Attempt 2, Attempt 3]))
          | Inl e2 \<Rightarrow>
              (case probe 3 of
                 Inr v3 \<Rightarrow> if v3 \<noteq> [] then (True, [Attempt 1, Sleep 2, Attempt 2, Sleep 2, Attempt 3])
                            else (False, [Attempt 1, Sleep 2, Attempt 2, Sleep 2, Attempt 3])
               | Inl e3 \<Rightarrow> (False, [Attempt 1, Sleep 2, Attempt 2, Sleep 2, Attempt 3]))))"
  unfolding initialize_def attempts_list
  by (simp add: MAX_RETRIES_def RETRY_DELAY_def split: sum.splits)

lemma initialize_at_most_three_attempts:
  "length (filter is_attempt (snd (initialize probe))) \<le> MAX_RETRIES"
  by (simp add: initialize_cases MAX_RETRIES_def is_attempt_def split: sum.splits)

lemma initialize_delay_fixed:
  "Sleep d \<in> set (snd (initialize probe)) \<Longrightarrow> d = RETRY_DELAY"
  by (simp add: initialize_cases RETRY_DELAY_def split: sum.splits if_splits)

lemma initialize_all_raise:
  "probe 1 = Inl e1 \<Longrightarrow> probe 2 = Inl e2 \<Longrightarrow> probe 3 = Inl e3 \<Longrightarrow>
     initialize probe = (False, [Attempt 1, Sleep RETRY_DELAY, Attempt 2, Sleep RETRY_DELAY, Attempt 3])"
  by (simp add: initialize_cases RETRY_DELAY_def)

lemma run_aborts_without_embeddings:
  "\<not> fst (initialize (embed_test b)) \<Longrightarrow> fst (run b) = Inr False \<and> fst (snd (run b)) = []"
  by (cases "initialize (embed_test b)") (simp add: run_def Let_def)


text \<open>
  Claim C9 at an embedding service whose test query returns an empty vector: the three
  attempts follow each other with no delay between them (the delay is taken only after an
  attempt that raised).
\<close>

theorem initialize_empty_vector_no_delay:
  "initialize empty_vector_probe = (False, [Attempt 1, Attempt 2, Attempt 3])"
  by (simp add: initialize_def MAX_RETRIES_def empty_vector_probe_def upt_rec)

section \<open>The agent graph: merging messages, steps and runs\<close>


lemma msg_id_with_id: "msg_id (with_id x m) = Some x"
  by (cases m) simp_all

lemma is_system_with_id: "is_system (with_id x m) = is_system m"
  by (cases m) simp_all

lemma assign_ids_append:
  "assign_ids gen i (xs @ ys) = assign_ids gen i xs @ assign_ids gen (i + length xs) ys"
  by (induction xs arbitrary: i) simp_all

lemma assign_ids_no_change:
  "\<forall>m \<in> set xs. msg_id m \<noteq> None \<Longrightarrow> assign_ids gen i xs = xs"
  by (induction xs arbitrary: i) auto

lemma length_assign_ids: "length (assign_ids gen i xs) = length xs"
  by (induction xs arbitrary: i) simp_all

lemma filter_system_assign_ids:
  "map is_system (assign_ids gen i xs) = map is_system xs"
  by (induction xs arbitrary: i) (simp_all add: is_system_with_id)

lemma merge_message_self:
  assumes "distinct (map msg_id L)" and "m \<in> set L"
  shows "merge_message L m = L"
proof -
  have "map (\<lambda>x. if msg_id x = msg_id m then m else x) L = L"
  proof (rule map_idI)
    fix x assume x: "x \<in> set L"
    show "(if msg_id x = msg_id m then m else x) = x"
    proof (cases "msg_id x = msg_id m")
      case True
      from assms(1) have "inj_on msg_id (set L)" by (simp add: distinct_map)
      with x assms(2) True have "x = m" by (auto dest: inj_onD)
      then show ?thesis by simp
    next
      case False
      then show ?thesis by simp
    qed
  qed
  moreover have "msg_id m \<in> set (map msg_id L)" using assms(2) by simp
  ultimately show ?thesis by (simp add: merge_message_def)
qed

lemma foldl_merge_self:
  "distinct (map msg_id L) \<Longrightarrow> set xs \<subseteq> set L \<Longrightarrow> foldl merge_message L xs = L"
  by (induction xs) (simp_all add: merge_message_self)

lemma foldl_merge_append:
  "distinct (map msg_id new) \<Longrightarrow> set (map msg_id new) \<inter> set (map msg_id L) = {} \<Longrightarrow>
     foldl merge_message L new = L @ new"
proof (induction new arbitrary: L)
  case Nil
  then show ?case by simp
next
  case (Cons m new)
  from Cons.prems have m: "msg_id m \<notin> set (map msg_id L)" by auto
  then have s: "merge_message L m = L @ [m]" by (simp add: merge_message_def)
  have "foldl merge_message (L @ [m]) new = (L @ [m]) @ new"
  proof (rule Cons.IH)
    show "distinct (map msg_id new)" using Cons.prems by simp
    show "set (map msg_id new) \<inter> set (map msg_id (L @ [m])) = {}"
      using Cons.prems by auto
  qed
  then show ?case by (simp add: s)
qed

lemma add_messages_append:
  assumes "\<forall>m \<in> set L. msg_id m \<noteq> None" and "distinct (map msg_id L)"
    and "distinct (map msg_id (assign_ids gen (length L) new))"
    and "set (map msg_id (assign_ids gen (length L) new)) \<inter> set (map msg_id L) = {}"
  shows "add_messages gen L (L @ new) = L @ assign_ids gen (length L) new"
proof -
  have "assign_ids gen 0 (L @ new) = L @ assign_ids gen (length L) new"
    using assms(1) by (simp add: assign_ids_append assign_ids_no_change)
  then have "add_messages gen L (L @ new)
               = foldl merge_message (foldl merge_message L L) (assign_ids gen (length L) new)"
    by (simp add: add_messages_def)
  also have "\<dots> = foldl merge_message L (assign_ids gen (length L) new)"
    using assms(2) by (simp add: foldl_merge_self)
  also have "\<dots> = L @ assign_ids gen (length L) new"
    using assms(3,4) by (rule foldl_merge_append)
  finally show ?thesis .
qed

lemma ids_of_Cons:
  "ids_of (m # ms) = (case msg_id m of None \<Rightarrow> [] | Some x \<Rightarrow> [x]) @ ids_of ms"
  by (simp add: ids_of_def)

lemma ids_of_append: "ids_of (xs @ ys) = ids_of xs @ ids_of ys"
  by (simp add: ids_of_def)

lemma ids_of_Nil: "ids_of [] = []"
  by (simp add: ids_of_def)

lemma msg_id_in_ids_of: "m \<in> set ms \<Longrightarrow> msg_id m = Some x \<Longrightarrow> x \<in> set (ids_of ms)"
  by (induction ms) (auto simp: ids_of_Cons)

lemma assigned_ids:
  assumes "distinct (ids_of xs)"
    and "\<forall>j j'. gen j = gen j' \<longrightarrow> j = j'"
    and "\<forall>j. gen j \<notin> set (ids_of xs)"
  shows "distinct (map msg_id (assign_ids gen i xs))
         \<and> set (map msg_id (assign_ids gen i xs))
             \<subseteq> Some ` (set (ids_of xs) \<union> gen ` {i..<i + length xs})"
  using assms(1,3)
proof (induction xs arbitrary: i)
  case Nil
  then show ?case by simp
next
  case (Cons m ms)
  have d: "distinct (ids_of ms)" and g: "\<forall>j. gen j \<notin> set (ids_of ms)"
    using Cons.prems by (auto simp: ids_of_Cons split: option.splits)
  from Cons.IH [OF d g, of "Suc i"]
  have ih1: "distinct (map msg_id (assign_ids gen (Suc i) ms))"
    and ih2: "set (map msg_id (assign_ids gen (Suc i) ms))
             \<subseteq> Some ` (set (ids_of ms) \<union> gen ` {Suc i..<Suc i + length ms})"
    by blast+
  let ?h = "if msg_id m = None then with_id (gen i) m else m"
  have h_notin: "msg_id ?h \<notin> Some ` (set (ids_of ms) \<union> gen ` {Suc i..<Suc i + length ms})"
  proof (cases "msg_id m")
    case None
    have "gen i \<notin> gen ` {Suc i..<Suc i + length ms}"
    proof
      assume "gen i \<in> gen ` {Suc i..<Suc i + length ms}"
      then obtain j where "Suc i \<le> j" and "gen i = gen j" by auto
      with assms(2) show False by (metis Suc_n_not_le_n)
    qed
    with g None show ?thesis by (auto simp: msg_id_with_id)
  next
    case (Some x)
    then have x1: "x \<notin> set (ids_of ms)" and x2: "\<forall>j. gen j \<noteq> x"
      using Cons.prems by (auto simp: ids_of_Cons)
    then show ?thesis using Some by auto
  qed
  have r: "{i..<i + length (m # ms)} = insert i {Suc i..<Suc i + length ms}"
    by auto
  have h_in: "msg_id ?h \<in> Some ` (set (ids_of (m # ms)) \<union> gen ` {i..<i + length (m # ms)})"
  proof (cases "msg_id m")
    case None
    then show ?thesis unfolding r by (simp add: msg_id_with_id)
  next
    case (Some x)
    then show ?thesis by (simp add: ids_of_Cons)
  qed
  have sub: "Some ` (set (ids_of ms) \<union> gen ` {Suc i..<Suc i + length ms})
          \<subseteq> Some ` (set (ids_of (m # ms)) \<union> gen ` {i..<i + length (m # ms)})"
    unfolding r by (auto simp: ids_of_Cons)
  from ih2 h_notin have n: "msg_id ?h \<notin> set (map msg_id (assign_ids gen (Suc i) ms))"
    by blast
  have e: "map msg_id (assign_ids gen i (m # ms)) = msg_id ?h # map msg_id (assign_ids gen (Suc i) ms)"
    by simp
  have "distinct (map msg_id (assign_ids gen i (m # ms)))"
    unfolding e using ih1 n by simp
  moreover have "set (map msg_id (assign_ids gen i (m # ms)))
      \<subseteq> Some ` (set (ids_of (m # ms)) \<union> gen ` {i..<i + length (m # ms)})"
    unfolding e using ih2 h_in sub by (simp only: set_simps insert_subset) blast
  ultimately show ?case by blast
qed


lemma messages_update_state:
  "messages (update_state w j state returned)
     = add_messages (uuid4 w j) (messages state) (messages returned)"
  by (simp add: update_state_def)

lemma id_pool_mono: "id_pool w history k \<subseteq> id_pool w history (Suc k)"
  by (auto simp: id_pool_def intro: le_SucI less_SucI)

lemma uuid4_in_pool: "uuid4 w j i \<in> id_pool w history j"
  by (auto simp: id_pool_def)

lemma uuid4_not_in_pool:
  assumes "fresh_ids w history"
  shows "uuid4 w (Suc k) i \<notin> id_pool w history k"
proof
  assume "uuid4 w (Suc k) i \<in> id_pool w history k"
  then consider "uuid4 w (Suc k) i \<in> set (ids_of history)"
    | j i' where "j \<le> k" "uuid4 w (Suc k) i = uuid4 w j i'"
    | j msgs c tcs where "llm_invoke w j msgs = Inr (c, tcs, Some (uuid4 w (Suc k) i))"
    by (auto simp: id_pool_def)
  then show False
  proof cases
    case 1
    with assms show False by (simp add: fresh_ids_def)
  next
    case 2
    with assms have "Suc k = j" unfolding fresh_ids_def by blast
    with 2 show False by simp
  next
    case 3
    with assms show False unfolding fresh_ids_def by blast
  qed
qed

lemma assign_tool_messages:
  "assign_ids gen n (map (\<lambda>r. ToolMessage r None) rs)
     = map (\<lambda>(j, r). ToolMessage r (Some (gen j))) (enumerate n rs)"
  by (induction rs arbitrary: n) simp_all

lemma append_new:
  assumes f: "fresh_ids w history" and s: "stored_ok w history k msgs"
    and d: "distinct (ids_of new)"
    and n: "\<forall>x \<in> set (ids_of new). x \<notin> id_pool w history k \<and> x \<in> id_pool w history (Suc k)
              \<and> (\<forall>j. x \<noteq> uuid4 w (Suc k) j)"
  shows "add_messages (uuid4 w (Suc k)) msgs (msgs @ new)
           = msgs @ assign_ids (uuid4 w (Suc k)) (length msgs) new"
    and "stored_ok w history (Suc k) (msgs @ assign_ids (uuid4 w (Suc k)) (length msgs) new)"
proof -
  let ?gen = "uuid4 w (Suc k)"
  let ?new = "assign_ids ?gen (length msgs) new"
  have inj: "\<forall>j j'. ?gen j = ?gen j' \<longrightarrow> j = j'"
    using f unfolding fresh_ids_def by blast
  have notin: "\<forall>j. ?gen j \<notin> set (ids_of new)"
    using n by blast
  from assigned_ids [OF d inj notin, of "length msgs"]
  have dn: "distinct (map msg_id ?new)"
    and sub: "set (map msg_id ?new) \<subseteq> Some ` (set (ids_of new) \<union> ?gen ` {length msgs..<length msgs + length new})"
    by blast+
  have new_ids: "\<exists>x. msg_id m = Some x \<and> x \<notin> id_pool w history k \<and> x \<in> id_pool w history (Suc k)"
    if "m \<in> set ?new" for m
  proof -
    from that sub obtain x where x: "msg_id m = Some x"
      and "x \<in> set (ids_of new) \<union> ?gen ` {length msgs..<length msgs + length new}"
      by auto
    then consider "x \<in> set (ids_of new)" | j where "x = ?gen j" by auto
    then have "x \<notin> id_pool w history k \<and> x \<in> id_pool w history (Suc k)"
    proof cases
      case 1
      with n show ?thesis by blast
    next
      case 2
      then show ?thesis
        using uuid4_not_in_pool [OF f] uuid4_in_pool by simp
    qed
    with x show ?thesis by blast
  qed
  from s have s1: "msgs \<noteq> []" and s2: "is_system (hd msgs)" and s3: "distinct (map msg_id msgs)"
    and s4: "\<forall>m \<in> set msgs. \<exists>x. msg_id m = Some x \<and> x \<in> id_pool w history k"
    unfolding stored_ok_def by blast+
  have disj: "set (map msg_id ?new) \<inter> set (map msg_id msgs) = {}"
  proof (rule ccontr)
    assume "set (map msg_id ?new) \<inter> set (map msg_id msgs) \<noteq> {}"
    then obtain a b where a: "a \<in> set ?new" and b: "b \<in> set msgs" and ab: "msg_id a = msg_id b"
      by auto
    from new_ids [OF a] obtain x where "msg_id a = Some x" "x \<notin> id_pool w history k" by blast
    moreover from s4 b obtain y where "msg_id b = Some y" "y \<in> id_pool w history k" by blast
    ultimately show False using ab by simp
  qed
  have some: "\<forall>m \<in> set msgs. msg_id m \<noteq> None"
    using s4 by auto
  show "add_messages ?gen msgs (msgs @ new) = msgs @ ?new"
    using some s3 dn disj by (rule add_messages_append)
  have "distinct (map msg_id (msgs @ ?new))"
    using s3 dn disj by auto
  moreover have "\<forall>m \<in> set (msgs @ ?new). \<exists>x. msg_id m = Some x \<and> x \<in> id_pool w history (Suc k)"
  proof
    fix m assume "m \<in> set (msgs @ ?new)"
    then consider "m \<in> set msgs" | "m \<in> set ?new" by auto
    then show "\<exists>x. msg_id m = Some x \<and> x \<in> id_pool w history (Suc k)"
    proof cases
      case 1
      with s4 id_pool_mono [of w history k] show ?thesis by blast
    next
      case 2
      from new_ids [OF this] show ?thesis by blast
    qed
  qed
  ultimately show "stored_ok w history (Suc k) (msgs @ ?new)"
    using s1 s2 unfolding stored_ok_def by simp
qed

lemma step_unchanged:
  assumes "fresh_ids w history" and "stored_ok w history k msgs"
  shows "add_messages (uuid4 w (Suc k)) msgs msgs = msgs"
    and "stored_ok w history (Suc k) msgs"
  using append_new [OF assms, of "[]"] by (simp_all add: ids_of_Nil)

lemma agent_step:
  assumes f: "fresh_ids w history" and s: "stored_ok w history k (messages state)"
  shows "messages (update_state w (Suc k) state (agent_node w k state))
           = messages state @ step_messages w k Agent (messages state)"
    and "stored_ok w history (Suc k)
           (messages state @ step_messages w k Agent (messages state))"
proof -
  let ?msgs = "messages state"
  have "messages (update_state w (Suc k) state (agent_node w k state))
           = ?msgs @ step_messages w k Agent ?msgs
        \<and> stored_ok w history (Suc k) (?msgs @ step_messages w k Agent ?msgs)"
  proof (cases "llm_invoke w k (with_system_prompt w ?msgs)")
    case (Inl e)
    then show ?thesis
      using step_unchanged [OF f s]
      by (simp add: messages_update_state agent_node_def step_messages_def)
  next
    case (Inr reply)
    obtain c tcs i where reply: "reply = (c, tcs, i)" by (cases reply)
    let ?new = "[AIMessage c tcs i]"
    have d: "distinct (ids_of ?new)"
      by (cases i) (simp_all add: ids_of_def)
    have n: "\<forall>x \<in> set (ids_of ?new). x \<notin> id_pool w history k \<and> x \<in> id_pool w history (Suc k)
              \<and> (\<forall>j. x \<noteq> uuid4 w (Suc k) j)"
    proof (cases i)
      case None
      then show ?thesis by (simp add: ids_of_def)
    next
      case (Some x)
      with Inr reply have l: "llm_invoke w k (with_system_prompt w ?msgs) = Inr (c, tcs, Some x)"
        by simp
      from f l have a: "x \<notin> set (ids_of history)" and b: "\<forall>j i. x \<noteq> uuid4 w j i"
        and c: "\<forall>k' msgs' c' tcs'. llm_invoke w k' msgs' = Inr (c', tcs', Some x) \<longrightarrow> k' = k"
        unfolding fresh_ids_def by blast+
      have "x \<notin> id_pool w history k"
      proof
        assume "x \<in> id_pool w history k"
        then consider "x \<in> set (ids_of history)" | j i' where "x = uuid4 w j i'"
          | j msgs' c' tcs' where "j < k" "llm_invoke w j msgs' = Inr (c', tcs', Some x)"
          by (auto simp: id_pool_def)
        then show False
        proof cases
          case 1 with a show False by simp
        next
          case 2 with b show False by blast
        next
          case 3 with c show False by blast
        qed
      qed
      moreover have "x \<in> id_pool w history (Suc k)"
        using l by (auto simp: id_pool_def)
      ultimately show ?thesis using b Some by (simp add: ids_of_def)
    qed
    have e: "assign_ids (uuid4 w (Suc k)) (length ?msgs) ?new = step_messages w k Agent ?msgs"
      using Inr reply by (cases i) (simp_all add: step_messages_def)
    have "messages (agent_node w k state) = ?msgs @ ?new"
      using Inr reply by (simp add: agent_node_def)
    with append_new [OF f s d n, unfolded e] show ?thesis
      by (simp only: messages_update_state)
  qed
  then show "messages (update_state w (Suc k) state (agent_node w k state))
           = messages state @ step_messages w k Agent (messages state)"
    and "stored_ok w history (Suc k)
           (messages state @ step_messages w k Agent (messages state))"
    by blast+
qed

lemma tools_step:
  assumes f: "fresh_ids w history" and s: "stored_ok w history k (messages state)"
    and t: "msg_tool_calls (last (messages state)) \<noteq> []"
  shows "messages (update_state w (Suc k) state (tool_node w k state))
           = messages state @ step_messages w k Tools (messages state)"
    and "stored_ok w history (Suc k)
           (messages state @ step_messages w k Tools (messages state))"
proof -
  let ?msgs = "messages state"
  from s have ne: "?msgs \<noteq> []" by (simp add: stored_ok_def)
  have "messages (update_state w (Suc k) state (tool_node w k state))
           = ?msgs @ step_messages w k Tools ?msgs
        \<and> stored_ok w history (Suc k) (?msgs @ step_messages w k Tools ?msgs)"
  proof (cases "tool_executor_invoke w k ?msgs")
    case (Inl e)
    then show ?thesis
      using step_unchanged [OF f s] ne t
      by (simp add: messages_update_state tool_node_def step_messages_def)
  next
    case (Inr res)
    show ?thesis
    proof (cases res)
      case None
      then show ?thesis
        using step_unchanged [OF f s] ne t Inr
        by (simp add: messages_update_state tool_node_def step_messages_def)
    next
      case (Some rs)
      let ?new = "map (\<lambda>r. ToolMessage r None) rs"
      have i: "ids_of ?new = []"
        by (induction rs) (simp_all add: ids_of_def)
      have e: "assign_ids (uuid4 w (Suc k)) (length ?msgs) ?new = step_messages w k Tools ?msgs"
        using Inr Some by (simp add: step_messages_def assign_tool_messages)
      have d: "distinct (ids_of ?new)"
        and n: "\<forall>x \<in> set (ids_of ?new). x \<notin> id_pool w history k \<and> x \<in> id_pool w history (Suc k)
              \<and> (\<forall>j. x \<noteq> uuid4 w (Suc k) j)"
        by (simp_all add: i)
      have "messages (tool_node w k state) = ?msgs @ ?new"
        using Inr Some ne t by (simp add: tool_node_def)
      with append_new [OF f s d n, unfolded e] show ?thesis
        by (simp only: messages_update_state)
    qed
  qed
  then show "messages (update_state w (Suc k) state (tool_node w k state))
           = messages state @ step_messages w k Tools (messages state)"
    and "stored_ok w history (Suc k)
           (messages state @ step_messages w k Tools (messages state))"
    by blast+
qed



lemma get_prompt_error: "get_prompt t ''error'' = ERROR_RESPONSE_PROMPT"
  by (simp add: get_prompt_def PROMPTS_def)

lemma ERROR_RESPONSE_PROMPT_nonempty: "ERROR_RESPONSE_PROMPT \<noteq> []"
  by (simp add: ERROR_RESPONSE_PROMPT_def)

lemma snd_invoke_from_Agent:
  "snd (invoke_from w (Suc fuel) k Agent state) =
     (case should_use_tools (update_state w (Suc k) state (agent_node w k state)) of
        Inl e \<Rightarrow> Inl e
      | Inr nd \<Rightarrow> snd (invoke_from w fuel (Suc k) nd (update_state w (Suc k) state (agent_node w k state))))"
  by (simp add: Let_def case_prod_beta split: sum.splits)

lemma snd_invoke_from_Tools:
  "snd (invoke_from w (Suc fuel) k Tools state) =
     snd (invoke_from w fuel (Suc k) Agent (update_state w (Suc k) state (tool_node w k state)))"
  by (simp add: case_prod_beta)

lemma fst_invoke_from_Agent:
  "fst (invoke_from w (Suc fuel) k Agent state) =
     (case should_use_tools (update_state w (Suc k) state (agent_node w k state)) of
        Inl e \<Rightarrow> [Agent]
      | Inr nd \<Rightarrow> Agent # fst (invoke_from w fuel (Suc k) nd (update_state w (Suc k) state (agent_node w k state))))"
  by (simp add: Let_def case_prod_beta split: sum.splits)

lemma fst_invoke_from_Tools:
  "fst (invoke_from w (Suc fuel) k Tools state) =
     Tools # fst (invoke_from w fuel (Suc k) Agent (update_state w (Suc k) state (tool_node w k state)))"
  by (simp add: case_prod_beta)

declare invoke_from.simps(2,3) [simp del]

lemma length_merge_message: "length L \<le> length (merge_message L m)"
  by (simp add: merge_message_def)

lemma length_foldl_merge: "length L \<le> length (foldl merge_message L xs)"
proof (induction xs arbitrary: L)
  case Nil
  then show ?case by simp
next
  case (Cons m xs)
  have "length L \<le> length (merge_message L m)" by (rule length_merge_message)
  also have "\<dots> \<le> length (foldl merge_message (merge_message L m) xs)" by (rule Cons.IH)
  finally show ?case by simp
qed

lemma add_messages_nonempty: "left \<noteq> [] \<Longrightarrow> add_messages gen left right \<noteq> []"
  using length_foldl_merge [of left "assign_ids gen 0 right"]
  by (auto simp: add_messages_def)

lemma add_messages_input_nonempty: "right \<noteq> [] \<Longrightarrow> add_messages gen [] right \<noteq> []"
proof (cases right)
  case Nil
  then show "right \<noteq> [] \<Longrightarrow> ?thesis" by simp
next
  case (Cons m ms)
  let ?m = "if msg_id m = None then with_id (gen 0) m else m"
  have "length [?m] \<le> length (foldl merge_message [?m] (assign_ids gen (Suc 0) ms))"
    by (rule length_foldl_merge)
  then show ?thesis
    using Cons by (auto simp: add_messages_def merge_message_def)
qed

lemma update_state_nonempty:
  "messages state \<noteq> [] \<Longrightarrow> messages (update_state w j state returned) \<noteq> []"
  by (simp add: messages_update_state add_messages_nonempty)

lemma response_update_state: "response (update_state w j state returned) = response returned"
  by (simp add: update_state_def)

lemma response_response_node:
  "\<exists>r. response (response_node w state) = Some r \<and> r \<noteq> []"
  by (simp add: response_node_def Let_def get_prompt_error ERROR_RESPONSE_PROMPT_nonempty)

lemma should_use_tools_nonempty:
  "messages state \<noteq> [] \<Longrightarrow>
     should_use_tools state
       = Inr (if msg_tool_calls (last (messages state)) \<noteq> [] then Tools else Response)"
  by (simp add: should_use_tools_def)

lemma invoke_from_outcome:
  "messages state \<noteq> [] \<Longrightarrow>
     (case snd (invoke_from w fuel k nd state) of
        Inl e \<Rightarrow> e = GraphRecursionError \<and> length (fst (invoke_from w fuel k nd state)) = fuel
      | Inr result \<Rightarrow> length (fst (invoke_from w fuel k nd state)) < fuel
                        \<and> (\<exists>r. response result = Some r \<and> r \<noteq> []))"
proof (induction fuel arbitrary: k nd state)
  case 0
  then show ?case by simp
next
  case (Suc fuel)
  show ?case
  proof (cases nd)
    case Agent
    let ?st = "update_state w (Suc k) state (agent_node w k state)"
    have ne: "messages ?st \<noteq> []" using Suc.prems by (rule update_state_nonempty)
    then obtain nd' where r: "should_use_tools ?st = Inr nd'"
      by (simp add: should_use_tools_nonempty)
    from Suc.IH [OF ne, of "Suc k" nd'] show ?thesis
      by (simp add: Agent snd_invoke_from_Agent fst_invoke_from_Agent r split: sum.splits)
  next
    case Tools
    let ?st = "update_state w (Suc k) state (tool_node w k state)"
    have ne: "messages ?st \<noteq> []" using Suc.prems by (rule update_state_nonempty)
    from Suc.IH [OF ne, of "Suc k" Agent] show ?thesis
      by (simp add: Tools snd_invoke_from_Tools fst_invoke_from_Tools split: sum.splits)
  next
    case Response
    then show ?thesis
      using response_response_node [of w state]
      by (cases fuel) (simp_all add: response_update_state)
  qed
qed

lemma invoke_from_round_trips:
  "tool_round_trips (fst (invoke_from w fuel k nd state))
     \<le> (fuel + (if nd = Tools then 1 else 0)) div 2"
proof (induction fuel arbitrary: k nd state)
  case 0
  then show ?case by (simp add: tool_round_trips_def)
next
  case (Suc fuel)
  show ?case
  proof (cases nd)
    case Agent
    let ?st = "update_state w (Suc k) state (agent_node w k state)"
    show ?thesis
    proof (cases "should_use_tools ?st")
      case (Inl e)
      with Agent show ?thesis by (simp add: fst_invoke_from_Agent tool_round_trips_def)
    next
      case (Inr nd')
      have "tool_round_trips (fst (invoke_from w fuel (Suc k) nd' ?st))
              \<le> (fuel + (if nd' = Tools then 1 else 0)) div 2"
        by (rule Suc.IH)
      also have "\<dots> \<le> Suc fuel div 2" by simp
      finally show ?thesis
        using Agent Inr by (simp add: fst_invoke_from_Agent tool_round_trips_def)
    qed
  next
    case Tools
    have "tool_round_trips (fst (invoke_from w fuel (Suc k) Agent (update_state w (Suc k) state (tool_node w k state))))
              \<le> (fuel + (if Agent = Tools then 1 else 0)) div 2"
      by (rule Suc.IH)
    then show ?thesis
      using Tools by (simp add: fst_invoke_from_Tools tool_round_trips_def)
  next
    case Response
    then show ?thesis by (simp add: tool_round_trips_def)
  qed
qed




lemma messages_turn_state:
  "messages (turn_state w query history system_prompt)
     = SystemMessage (case system_prompt of None \<Rightarrow> SYSTEM_PROMPT w
                       | Some p \<Rightarrow> if p = [] then SYSTEM_PROMPT w else p) None
       # or_empty history @ [HumanMessage query None]"
  by (simp add: turn_state_def Let_def)

lemma messages_graph_input:
  "messages (graph_input w state) = add_messages (uuid4 w 0) [] (messages state)"
  by (simp add: graph_input_def messages_update_state)

lemma graph_input_nonempty:
  "messages (graph_input w (turn_state w query history system_prompt)) \<noteq> []"
  by (simp add: messages_graph_input messages_turn_state add_messages_input_nonempty)

lemma input_messages:
  assumes f: "fresh_ids w (or_empty history)"
  shows "messages (graph_input w (turn_state w query history system_prompt))
           = SystemMessage (case system_prompt of None \<Rightarrow> SYSTEM_PROMPT w
                             | Some p \<Rightarrow> if p = [] then SYSTEM_PROMPT w else p) (Some (uuid4 w 0 0))
             # assign_ids (uuid4 w 0) 1 (or_empty history)
             @ [HumanMessage query (Some (uuid4 w 0 (Suc (length (or_empty history)))))]"
    and "stored_ok w (or_empty history) 0
           (messages (graph_input w (turn_state w query history system_prompt)))"
proof -
  let ?H = "or_empty history"
  let ?gen = "uuid4 w 0"
  let ?p = "case system_prompt of None \<Rightarrow> SYSTEM_PROMPT w
                             | Some p \<Rightarrow> if p = [] then SYSTEM_PROMPT w else p"
  let ?I = "SystemMessage ?p None # ?H @ [HumanMessage query None]"
  let ?A = "SystemMessage ?p (Some (?gen 0)) # assign_ids ?gen 1 ?H
             @ [HumanMessage query (Some (?gen (Suc (length ?H))))]"
  have a: "assign_ids ?gen 0 ?I = ?A"
    by (simp add: assign_ids_append)
  have i: "ids_of ?I = ids_of ?H"
    by (simp add: ids_of_Cons ids_of_append ids_of_Nil)
  have d: "distinct (ids_of ?I)" and inj: "\<forall>j j'. ?gen j = ?gen j' \<longrightarrow> j = j'"
    and notin: "\<forall>j. ?gen j \<notin> set (ids_of ?I)"
    using f unfolding i fresh_ids_def by blast+
  from assigned_ids [OF d inj notin, of 0]
  have da: "distinct (map msg_id ?A)"
    and sub: "set (map msg_id ?A) \<subseteq> Some ` (set (ids_of ?H) \<union> ?gen ` {0..<0 + length ?I})"
    unfolding a i by blast+
  have "add_messages ?gen [] ?I = [] @ ?A"
    unfolding add_messages_def a
    using da by (intro foldl_merge_append) simp_all
  then show m: "messages (graph_input w (turn_state w query history system_prompt)) = ?A"
    by (simp add: messages_graph_input messages_turn_state)
  have "\<forall>m \<in> set ?A. \<exists>x. msg_id m = Some x \<and> x \<in> id_pool w ?H 0"
  proof
    fix m assume "m \<in> set ?A"
    then have "msg_id m \<in> set (map msg_id ?A)" by (simp only: set_map) (rule imageI)
    with sub obtain x where x: "msg_id m = Some x"
      and "x \<in> set (ids_of ?H) \<union> ?gen ` {0..<0 + length ?I}" by auto
    then have "x \<in> id_pool w ?H 0" by (auto simp: id_pool_def)
    with x show "\<exists>x. msg_id m = Some x \<and> x \<in> id_pool w ?H 0" by blast
  qed
  with da show "stored_ok w ?H 0 (messages (graph_input w (turn_state w query history system_prompt)))"
    unfolding m stored_ok_def by simp
qed

lemma run_agent_with_history_raise:
  "agent_invoke w (turn_state w query history system_prompt) = Inl e \<Longrightarrow>
     run_agent_with_history w query history system_prompt = (Some ERROR_RESPONSE_PROMPT, or_empty history)"
  by (simp add: run_agent_with_history_def get_prompt_error)

lemma agent_invoke_outcome:
  "case agent_invoke w (turn_state w query history system_prompt) of
     Inl e \<Rightarrow> e = GraphRecursionError
              \<and> length (agent_trace w (turn_state w query history system_prompt)) = recursion_limit w
   | Inr result \<Rightarrow> length (agent_trace w (turn_state w query history system_prompt)) < recursion_limit w
                    \<and> (\<exists>r. response result = Some r \<and> r \<noteq> [])"
proof -
  have "messages (graph_input w (turn_state w query history system_prompt)) \<noteq> []"
    by (rule graph_input_nonempty)
  from invoke_from_outcome [OF this, of w "recursion_limit w" 0 Agent]
  show ?thesis
    unfolding agent_invoke_def agent_trace_def .
qed

lemma run_agent_with_history_returns:
  "\<exists>r h. run_agent_with_history w query history system_prompt = (Some r, h) \<and> r \<noteq> []"
proof (cases "agent_invoke w (turn_state w query history system_prompt)")
  case (Inl e)
  then show ?thesis
    by (simp add: run_agent_with_history_raise ERROR_RESPONSE_PROMPT_nonempty)
next
  case (Inr result)
  with agent_invoke_outcome [of w query history system_prompt]
  obtain r where "response result = Some r" "r \<noteq> []" by auto
  with Inr show ?thesis by (simp add: run_agent_with_history_def)
qed



lemma digit_char_not_dash: "d < 10 \<Longrightarrow> digit_char d \<noteq> CHR ''-''"
proof
  assume d: "d < 10" and "digit_char d = CHR ''-''"
  then have "(of_char (digit_char d) :: nat) = of_char CHR ''-''" by simp
  with d show False by (simp add: of_char_digit_char)
qed

lemma str_nat_no_dash: "CHR ''-'' \<notin> set (str_nat n)"
proof (induction n rule: str_nat.induct)
  case (1 n)
  show ?case
  proof (cases "n < 10")
    case True
    then show ?thesis
      using digit_char_not_dash [of n] by (subst str_nat.simps) auto
  next
    case False
    then have "CHR ''-'' \<notin> set (str_nat (n div 10))" using 1 by simp
    moreover have "digit_char (n mod 10) \<noteq> CHR ''-''"
      by (rule digit_char_not_dash) simp
    ultimately show ?thesis
      using False by (subst str_nat.simps) auto
  qed
qed


lemma str_nat_inj: "str_nat a = str_nat b \<Longrightarrow> a = b"
  by (metis digits_value_str_nat)

lemma demo_uuid4_inj:
  assumes "demo_uuid4 j i = demo_uuid4 j' i'"
  shows "j = j' \<and> i = i'"
proof -
  from assms have e: "str_nat j @ CHR ''-'' # str_nat i = str_nat j' @ CHR ''-'' # str_nat i'"
    by (simp add: demo_uuid4_def)
  have t: "takeWhile (\<lambda>c. c \<noteq> CHR ''-'') (str_nat a @ CHR ''-'' # ys) = str_nat a" for a ys
  proof -
    have "takeWhile (\<lambda>c. c \<noteq> CHR ''-'') (str_nat a @ CHR ''-'' # ys)
            = takeWhile (\<lambda>c. c \<noteq> CHR ''-'') (str_nat a)"
      by (rule takeWhile_tail) simp
    also have "\<dots> = str_nat a"
      using str_nat_no_dash [of a] by (auto simp: takeWhile_eq_all_conv)
    finally show ?thesis .
  qed
  from e have "takeWhile (\<lambda>c. c \<noteq> CHR ''-'') (str_nat j @ CHR ''-'' # str_nat i)
      = takeWhile (\<lambda>c. c \<noteq> CHR ''-'') (str_nat j' @ CHR ''-'' # str_nat i')"
    by simp
  then have j: "str_nat j = str_nat j'" by (simp only: t)
  with e have "str_nat i = str_nat i'" by simp
  with j show ?thesis by (simp add: str_nat_inj)
qed

lemma uuid4_make_world: "uuid4 (make_world model executor limit) = demo_uuid4"
  and llm_make_world: "llm_invoke (make_world model executor limit) = model"
  and tools_make_world: "tool_executor_invoke (make_world model executor limit) = executor"
  and limit_make_world: "recursion_limit (make_world model executor limit) = limit"
  by (simp_all add: make_world_def)

text \<open>
  The demo worlds draw ids that begin with \<open>uuid\<close> and their models give ids of the form
  \<open>run-k\<close> at step \<open>k\<close>; so no id clashes with a history whose ids are pairwise distinct
  and begin with neither.
\<close>

lemma fresh_make_world:
  assumes d: "distinct (ids_of history)"
    and h: "\<forall>x \<in> set (ids_of history). take 4 x \<noteq> ''uuid'' \<and> take 4 x \<noteq> ''run-''"
    and m: "\<forall>k msgs c tcs x. model k msgs = Inr (c, tcs, Some x) \<longrightarrow> x = ''run-'' @ str_nat k"
  shows "fresh_ids (make_world model executor limit) history"
proof -
  have u: "take 4 (demo_uuid4 j i) = ''uuid''" for j i
    by (simp add: demo_uuid4_def)
  have r: "take 4 (''run-'' @ str_nat k) = ''run-''" for k
    by simp
  have 1: "\<forall>j i j' i'. demo_uuid4 j i = demo_uuid4 j' i' \<longrightarrow> j = j' \<and> i = i'"
    using demo_uuid4_inj by blast
  have 2: "\<forall>j i. demo_uuid4 j i \<notin> set (ids_of history)"
    using h u by blast
  have 3: "\<forall>k msgs c tcs x. model k msgs = Inr (c, tcs, Some x) \<longrightarrow>
           x \<notin> set (ids_of history)
           \<and> (\<forall>j i. x \<noteq> demo_uuid4 j i)
           \<and> (\<forall>k' msgs' c' tcs'. model k' msgs' = Inr (c', tcs', Some x) \<longrightarrow> k' = k)"
  proof (intro allI impI)
    fix k msgs c tcs x
    assume "model k msgs = Inr (c, tcs, Some x)"
    with m have x: "x = ''run-'' @ str_nat k" by blast
    have a: "x \<notin> set (ids_of history)"
      using h r x by blast
    have b: "\<forall>j i. x \<noteq> demo_uuid4 j i"
    proof (intro allI notI)
      fix j i assume "x = demo_uuid4 j i"
      then have "take 4 x = take 4 (demo_uuid4 j i)" by simp
      then show False unfolding u x r by simp
    qed
    have c: "\<forall>k' msgs' c' tcs'. model k' msgs' = Inr (c', tcs', Some x) \<longrightarrow> k' = k"
    proof (intro allI impI)
      fix k' msgs' c' tcs'
      assume "model k' msgs' = Inr (c', tcs', Some x)"
      with m have "x = ''run-'' @ str_nat k'" by blast
      with x have "str_nat k' = str_nat k" by simp
      then show "k' = k" by (rule str_nat_inj)
    qed
    from a b c show "x \<notin> set (ids_of history)
           \<and> (\<forall>j i. x \<noteq> demo_uuid4 j i)
           \<and> (\<forall>k' msgs' c' tcs'. model k' msgs' = Inr (c', tcs', Some x) \<longrightarrow> k' = k)"
      by blast
  qed
  show ?thesis
    unfolding fresh_ids_def uuid4_make_world llm_make_world
    using d 1 2 3 by blast
qed

lemma fresh_chatty_world:
  "distinct (ids_of history) \<Longrightarrow>
   \<forall>x \<in> set (ids_of history). take 4 x \<noteq> ''uuid'' \<and> take 4 x \<noteq> ''run-'' \<Longrightarrow>
     fresh_ids (chatty_world n limit) history"
  unfolding chatty_world_def
  by (rule fresh_make_world) (auto split: if_splits)



lemma fresh_ids_Nil_chatty_world: "fresh_ids (chatty_world n limit) []"
  by (rule fresh_chatty_world) (simp_all add: ids_of_Nil)

subsection \<open>The talkative model\<close>

lemma chatty_llm:
  "llm_invoke (chatty_world n limit) k msgs =
     (if k < 2 * n
      then Inr ([], [(''search_sop_tool'', ''walk-in policy'')], Some (''run-'' @ str_nat k))
      else Inr (''Yes, walk-ins are welcome.'', [], Some (''run-'' @ str_nat k)))"
  by (simp add: chatty_world_def make_world_def)

lemma chatty_limit: "recursion_limit (chatty_world n limit) = limit"
  by (simp add: chatty_world_def make_world_def)

lemma chatty_agent_step:
  assumes f: "fresh_ids (chatty_world n limit) H"
    and s: "stored_ok (chatty_world n limit) H k (messages state)"
  shows "messages (update_state (chatty_world n limit) (Suc k) state (agent_node (chatty_world n limit) k state))
           = messages state
             @ [AIMessage (if k < 2 * n then [] else ''Yes, walk-ins are welcome.'')
                  (if k < 2 * n then [(''search_sop_tool'', ''walk-in policy'')] else [])
                  (Some (''run-'' @ str_nat k))]"
    and "stored_ok (chatty_world n limit) H (Suc k)
           (messages (update_state (chatty_world n limit) (Suc k) state (agent_node (chatty_world n limit) k state)))"
proof -
  let ?w = "chatty_world n limit"
  have m: "messages (update_state ?w (Suc k) state (agent_node ?w k state))
             = messages state @ step_messages ?w k Agent (messages state)"
    by (rule agent_step(1) [OF f s])
  then show "messages (update_state ?w (Suc k) state (agent_node ?w k state))
           = messages state
             @ [AIMessage (if k < 2 * n then [] else ''Yes, walk-ins are welcome.'')
                  (if k < 2 * n then [(''search_sop_tool'', ''walk-in policy'')] else [])
                  (Some (''run-'' @ str_nat k))]"
    by (simp add: step_messages_def chatty_llm)
  show "stored_ok ?w H (Suc k) (messages (update_state ?w (Suc k) state (agent_node ?w k state)))"
    unfolding m by (rule agent_step(2) [OF f s])
qed

lemma chatty_run:
  assumes f: "fresh_ids (chatty_world n limit) H"
  shows "n - j = d \<Longrightarrow> j \<le> n \<Longrightarrow>
     stored_ok (chatty_world n limit) H (2 * j) (messages state) \<Longrightarrow>
     (2 * d + 2 < fuel \<longrightarrow>
        tool_round_trips (fst (invoke_from (chatty_world n limit) fuel (2 * j) Agent state)) = d
        \<and> (\<exists>result. snd (invoke_from (chatty_world n limit) fuel (2 * j) Agent state) = Inr result
              \<and> response result = Some ''Yes, walk-ins are welcome.''))
     \<and> (fuel \<le> 2 * d + 2 \<longrightarrow>
          snd (invoke_from (chatty_world n limit) fuel (2 * j) Agent state) = Inl GraphRecursionError)"
proof (induction d arbitrary: j fuel state)
  case 0
  let ?w = "chatty_world n limit"
  let ?st = "update_state ?w (Suc (2 * j)) state (agent_node ?w (2 * j) state)"
  from 0 have jn: "\<not> 2 * j < 2 * n" by simp
  from chatty_agent_step(1) [OF f 0(3)] jn
  have m: "messages ?st = messages state
             @ [AIMessage ''Yes, walk-ins are welcome.'' [] (Some (''run-'' @ str_nat (2 * j)))]"
    by simp
  have r: "should_use_tools ?st = Inr Response"
    by (simp add: should_use_tools_def m)
  have a: "response (response_node ?w ?st) = Some ''Yes, walk-ins are welcome.''"
    by (simp add: response_node_def m Let_def)
  have "fuel = 0 \<or> fuel = Suc 0 \<or> fuel = Suc (Suc 0) \<or> fuel = Suc (Suc (Suc (fuel - 3)))"
    by arith
  then consider "fuel = 0" | "fuel = Suc 0" | "fuel = Suc (Suc 0)"
    | g where "fuel = Suc (Suc (Suc g))" by blast
  then show ?case
  proof cases
    case 1
    then show ?thesis by simp
  next
    case 2
    then show ?thesis by (simp add: snd_invoke_from_Agent r)
  next
    case 3
    then show ?thesis by (simp add: snd_invoke_from_Agent r)
  next
    case 4
    then show ?thesis
      by (simp add: snd_invoke_from_Agent fst_invoke_from_Agent r tool_round_trips_def
          response_update_state a)
  qed
next
  case (Suc d)
  let ?w = "chatty_world n limit"
  let ?k = "2 * j"
  let ?st = "update_state ?w (Suc ?k) state (agent_node ?w ?k state)"
  let ?st2 = "update_state ?w (Suc (Suc ?k)) ?st (tool_node ?w (Suc ?k) ?st)"
  from Suc.prems have jn: "2 * j < 2 * n" by simp
  from chatty_agent_step(1) [OF f Suc.prems(3)] jn
  have m: "messages ?st = messages state
             @ [AIMessage [] [(''search_sop_tool'', ''walk-in policy'')] (Some (''run-'' @ str_nat ?k))]"
    by simp
  have s1: "stored_ok ?w H (Suc ?k) (messages ?st)"
    by (rule chatty_agent_step(2) [OF f Suc.prems(3)])
  have r: "should_use_tools ?st = Inr Tools"
    by (simp add: should_use_tools_def m)
  have t: "msg_tool_calls (last (messages ?st)) \<noteq> []"
    by (simp add: m)
  have s2: "stored_ok ?w H (2 * Suc j) (messages ?st2)"
    using tools_step [OF f s1 t] by simp
  have d: "n - Suc j = d" and le: "Suc j \<le> n"
    using Suc.prems by simp_all
  have k: "Suc (Suc ?k) = 2 * Suc j" by simp
  have "fuel = 0 \<or> fuel = Suc 0 \<or> fuel = Suc (Suc (fuel - 2))"
    by arith
  then consider "fuel = 0" | "fuel = Suc 0" | g where "fuel = Suc (Suc g)" by blast
  then show ?case
  proof cases
    case 1
    then show ?thesis by simp
  next
    case 2
    then show ?thesis by (simp add: snd_invoke_from_Agent r)
  next
    case 3
    from Suc.IH [OF d le s2, of g]
    have ih: "(2 * d + 2 < g \<longrightarrow>
        tool_round_trips (fst (invoke_from ?w g (2 * Suc j) Agent ?st2)) = d
        \<and> (\<exists>result. snd (invoke_from ?w g (2 * Suc j) Agent ?st2) = Inr result
              \<and> response result = Some ''Yes, walk-ins are welcome.''))
     \<and> (g \<le> 2 * d + 2 \<longrightarrow>
          snd (invoke_from ?w g (2 * Suc j) Agent ?st2) = Inl GraphRecursionError)" .
    have tr: "fst (invoke_from ?w fuel ?k Agent state)
             = Agent # Tools # fst (invoke_from ?w g (2 * Suc j) Agent ?st2)"
      by (simp only: 3 fst_invoke_from_Agent r sum.case fst_invoke_from_Tools k)
    have sn: "snd (invoke_from ?w fuel ?k Agent state)
             = snd (invoke_from ?w g (2 * Suc j) Agent ?st2)"
      by (simp only: 3 snd_invoke_from_Agent r sum.case snd_invoke_from_Tools k)
    have c1: "2 * Suc d + 2 < fuel \<longleftrightarrow> 2 * d + 2 < g"
      and c2: "fuel \<le> 2 * Suc d + 2 \<longleftrightarrow> g \<le> 2 * d + 2"
      using 3 by simp_all
    from ih show ?thesis
      unfolding tr sn c1 c2 by (simp add: tool_round_trips_def)
  qed
qed

lemma chatty_round_trips:
  assumes f: "fresh_ids (chatty_world n limit) (or_empty history)"
  shows "(2 * n + 2 < limit \<longrightarrow>
        tool_round_trips (agent_trace (chatty_world n limit)
            (turn_state (chatty_world n limit) query history system_prompt)) = n
        \<and> (\<exists>result. agent_invoke (chatty_world n limit)
                (turn_state (chatty_world n limit) query history system_prompt) = Inr result
              \<and> response result = Some ''Yes, walk-ins are welcome.''))
     \<and> (limit \<le> 2 * n + 2 \<longrightarrow>
          agent_invoke (chatty_world n limit)
             (turn_state (chatty_world n limit) query history system_prompt) = Inl GraphRecursionError)"
proof -
  let ?w = "chatty_world n limit"
  have s: "stored_ok ?w (or_empty history) (2 * 0)
             (messages (graph_input ?w (turn_state ?w query history system_prompt)))"
    using input_messages(2) [OF f] by simp
  have "n - 0 = n" and "0 \<le> n" by simp_all
  from chatty_run [OF f this s, of limit]
  show ?thesis
    by (simp only: agent_trace_def agent_invoke_def chatty_limit mult_0_right)
qed



subsection \<open>Turns that fail\<close>





subsection \<open>Sequences of turns\<close>








section \<open>The claims about the agent\<close>

text \<open>
  Claim C1 at a model call that raises: the turn returns normally, but the response is the
  caller's own question, not the canned fallback (the response node overwrites the
  fallback the agent node had set with the content of the last message).
\<close>

theorem model_failure_echoes_query:
  "llm_invoke world_model_down 0
      (messages (graph_input world_model_down
         (turn_state world_model_down ''What are your hours?'' None None)))
     = Inl (Raised ''Connection error.'')
   \<and> run_agent_with_history world_model_down ''What are your hours?'' None None
     = (Some ''What are your hours?'', [HumanMessage ''What are your hours?'' (Some ''uuid-0-1'')])
   \<and> ''What are your hours?'' \<noteq> ERROR_RESPONSE_PROMPT"
  by code_simp

text \<open>
  Claim C2, as the code has it. The graph holds no round-trip counter: the \<open>tools\<close> node
  runs after every assistant reply that carries tool calls, so the model decides how many
  round-trips a turn makes. The only bound is the step limit of the graph runtime: a run
  makes at most half that many round-trips; the run raises exactly when its node
  executions use up the limit, and then \<open>run_agent_with_history\<close> returns the canned
  fallback with the input history. Under any step limit, a model that asks for a tool
  \<open>n\<close> times and then answers makes the turn go through exactly \<open>n\<close> round-trips and end
  with the model's answer if the \<open>2 n + 2\<close> node executions this takes are fewer than the
  limit, and makes the turn end with the fallback otherwise.
\<close>

theorem round_trips_bounded_by_runtime_only:
  "tool_round_trips (agent_trace w state) \<le> recursion_limit w div 2
   \<and> (agent_invoke w (turn_state w query history system_prompt) = Inl e \<longrightarrow>
        e = GraphRecursionError
        \<and> length (agent_trace w (turn_state w query history system_prompt)) = recursion_limit w
        \<and> run_agent_with_history w query history system_prompt
            = (Some ERROR_RESPONSE_PROMPT, or_empty history))
   \<and> (length (agent_trace w (turn_state w query history system_prompt)) = recursion_limit w \<longrightarrow>
        agent_invoke w (turn_state w query history system_prompt) = Inl GraphRecursionError)
   \<and> (fresh_ids (chatty_world n limit) (or_empty history) \<and> 2 * n + 2 < limit \<longrightarrow>
        tool_round_trips (agent_trace (chatty_world n limit)
            (turn_state (chatty_world n limit) query history system_prompt)) = n
        \<and> fst (run_agent_with_history (chatty_world n limit) query history system_prompt)
            = Some ''Yes, walk-ins are welcome.'')
   \<and> (fresh_ids (chatty_world n limit) (or_empty history) \<and> limit \<le> 2 * n + 2 \<longrightarrow>
        agent_invoke (chatty_world n limit)
            (turn_state (chatty_world n limit) query history system_prompt) = Inl GraphRecursionError
        \<and> run_agent_with_history (chatty_world n limit) query history system_prompt
            = (Some ERROR_RESPONSE_PROMPT, or_empty history))"
proof -
  let ?st = "turn_state w query history system_prompt"
  let ?c = "chatty_world n limit"
  let ?cst = "turn_state ?c query history system_prompt"
  have 1: "tool_round_trips (agent_trace w state) \<le> recursion_limit w div 2"
    using invoke_from_round_trips [of w "recursion_limit w" 0 Agent "graph_input w state"]
    by (simp add: agent_trace_def)
  have 2: "agent_invoke w ?st = Inl e \<longrightarrow>
        e = GraphRecursionError \<and> length (agent_trace w ?st) = recursion_limit w
        \<and> run_agent_with_history w query history system_prompt
            = (Some ERROR_RESPONSE_PROMPT, or_empty history)"
    using agent_invoke_outcome [of w query history system_prompt]
    by (auto simp: run_agent_with_history_raise)
  have 3: "length (agent_trace w ?st) = recursion_limit w \<longrightarrow>
        agent_invoke w ?st = Inl GraphRecursionError"
    using agent_invoke_outcome [of w query history system_prompt]
    by (cases "agent_invoke w ?st") auto
  have 4: "fresh_ids ?c (or_empty history) \<and> 2 * n + 2 < limit \<longrightarrow>
        tool_round_trips (agent_trace ?c ?cst) = n
        \<and> fst (run_agent_with_history ?c query history system_prompt)
            = Some ''Yes, walk-ins are welcome.''"
  proof
    assume a: "fresh_ids ?c (or_empty history) \<and> 2 * n + 2 < limit"
    with chatty_round_trips [of n limit history query system_prompt]
    obtain result where "tool_round_trips (agent_trace ?c ?cst) = n"
      and "agent_invoke ?c ?cst = Inr result"
      and "response result = Some ''Yes, walk-ins are welcome.''"
      by blast
    then show "tool_round_trips (agent_trace ?c ?cst) = n
        \<and> fst (run_agent_with_history ?c query history system_prompt)
            = Some ''Yes, walk-ins are welcome.''"
      by (simp add: run_agent_with_history_def)
  qed
  have 5: "fresh_ids ?c (or_empty history) \<and> limit \<le> 2 * n + 2 \<longrightarrow>
        agent_invoke ?c ?cst = Inl GraphRecursionError
        \<and> run_agent_with_history ?c query history system_prompt
            = (Some ERROR_RESPONSE_PROMPT, or_empty history)"
  proof
    assume a: "fresh_ids ?c (or_empty history) \<and> limit \<le> 2 * n + 2"
    with chatty_round_trips [of n limit history query system_prompt]
    have "agent_invoke ?c ?cst = Inl GraphRecursionError" by blast
    then show "agent_invoke ?c ?cst = Inl GraphRecursionError
        \<and> run_agent_with_history ?c query history system_prompt
            = (Some ERROR_RESPONSE_PROMPT, or_empty history)"
      by (simp add: run_agent_with_history_raise)
  qed
  from 1 2 3 4 5 show ?thesis by (intro conjI)
qed

text \<open>
  The statement for claim C2 at work. With the search index missing the turn uses up a
  step limit of 25 and ends with the fallback, after 12 round-trips at most; a model that
  asks for one tool makes one round-trip and the turn ends with its answer; a model that
  asks for a tool twelve times needs 26 node executions, and under the limit of 25 the
  turn ends with the fallback.
\<close>

theorem round_trips_bounded_by_runtime_only_witness:
  "agent_invoke world_tool_down (turn_state world_tool_down ''Do you accept walk-ins?'' None None)
     = Inl GraphRecursionError
   \<and> length (agent_trace world_tool_down
        (turn_state world_tool_down ''Do you accept walk-ins?'' None None)) = 25
   \<and> run_agent_with_history world_tool_down ''Do you accept walk-ins?'' None None
       = (Some ERROR_RESPONSE_PROMPT, [])
   \<and> tool_round_trips (agent_trace world_tool_down
        (turn_state world_tool_down ''Do you accept walk-ins?'' None None)) \<le> 12
   \<and> tool_round_trips (agent_trace (chatty_world 1 25)
        (turn_state (chatty_world 1 25) ''Do you accept walk-ins?'' None None)) = 1
   \<and> fst (run_agent_with_history (chatty_world 1 25) ''Do you accept walk-ins?'' None None)
       = Some ''Yes, walk-ins are welcome.''
   \<and> run_agent_with_history (chatty_world 12 25) ''Do you accept walk-ins?'' None None
       = (Some ERROR_RESPONSE_PROMPT, [])"
proof -
  let ?q = "''Do you accept walk-ins?''"
  let ?st = "turn_state world_tool_down ?q None None"
  have a: "agent_invoke world_tool_down ?st = Inl GraphRecursionError"
    by code_simp
  have l: "recursion_limit world_tool_down = 25"
    by (simp add: world_tool_down_def make_world_def)
  have b: "length (agent_trace world_tool_down ?st) = recursion_limit world_tool_down"
    unfolding l by code_simp
  have o: "or_empty None = ([] :: message list)"
    by (simp add: or_empty_def)
  have f1: "fresh_ids (chatty_world 1 25) (or_empty None)"
    unfolding o by (rule fresh_ids_Nil_chatty_world)
  have f12: "fresh_ids (chatty_world 12 25) (or_empty None)"
    unfolding o by (rule fresh_ids_Nil_chatty_world)
  have n1: "2 * 1 + 2 < (25 :: nat)" and n12: "(25 :: nat) \<le> 2 * 12 + 2"
    by simp_all
  note T1 = round_trips_bounded_by_runtime_only [where w = world_tool_down and state = ?st
      and query = ?q and history = None and system_prompt = None and e = GraphRecursionError
      and n = 1 and limit = 25]
  note T12 = round_trips_bounded_by_runtime_only [where w = world_tool_down and state = ?st
      and query = ?q and history = None and system_prompt = None and e = GraphRecursionError
      and n = 12 and limit = 25]
  from T1 have 1: "tool_round_trips (agent_trace world_tool_down ?st) \<le> 12"
    unfolding l by simp
  from T1 a have 2: "length (agent_trace world_tool_down ?st) = 25
      \<and> run_agent_with_history world_tool_down ?q None None = (Some ERROR_RESPONSE_PROMPT, [])"
    unfolding l o by blast
  from T1 b have 3: "agent_invoke world_tool_down ?st = Inl GraphRecursionError"
    by blast
  from T1 f1 n1 have 4: "tool_round_trips (agent_trace (chatty_world 1 25)
        (turn_state (chatty_world 1 25) ?q None None)) = 1
      \<and> fst (run_agent_with_history (chatty_world 1 25) ?q None None)
          = Some ''Yes, walk-ins are welcome.''"
    by blast
  from T12 f12 n12 have 5: "run_agent_with_history (chatty_world 12 25) ?q None None
       = (Some ERROR_RESPONSE_PROMPT, [])"
    unfolding o by blast
  from 1 2 3 4 5 show ?thesis by blast
qed

text \<open>
  Claim C2 as stated fails: under a step limit of 25 a model that asks for a tool seven
  times makes the turn go through seven round-trips, more than the six the claim allows,
  and the turn ends with the model's answer, not with a forced fallback.
\<close>

theorem round_trip_cap_counterexample:
  "tool_round_trips (agent_trace (chatty_world 7 25)
      (turn_state (chatty_world 7 25) ''Do you accept walk-ins?'' None None)) = 7
   \<and> fst (run_agent_with_history (chatty_world 7 25) ''Do you accept walk-ins?'' None None)
       = Some ''Yes, walk-ins are welcome.''
   \<and> ''Yes, walk-ins are welcome.'' \<noteq> ERROR_RESPONSE_PROMPT"
  by code_simp







end
